theory Spec2Isabelle
  imports Main "HOL-Library.Char_ord" "HOL-Library.List_Lexorder" "HOL-Library.AList"
begin

section \<open>Strings\<close>

text \<open>
  Python strings are modelled as \<open>string\<close> (a list of bytes); the string methods the
  source calls are given for ASCII text.  \<open>lower\<close> is \<open>str.lower\<close>, \<open>strip\<close> is
  \<open>str.strip\<close> with no argument, \<open>split_on\<close> is \<open>str.split(sep)\<close> for a
  one-character separator, \<open>join\<close> is \<open>sep.join(xs)\<close> and \<open>str_nat\<close> is
  \<open>str(n)\<close> (the \<open>{counter}\<close> of an f-string) for a non-negative integer.
\<close>

definition lower_char :: "char \<Rightarrow> char" where
  "lower_char c =
     (case map_of (zip ''ABCDEFGHIJKLMNOPQRSTUVWXYZ'' ''abcdefghijklmnopqrstuvwxyz'') c of
        Some d \<Rightarrow> d
      | None \<Rightarrow> c)"

definition lower :: "string \<Rightarrow> string" where
  "lower s = map lower_char s"

definition is_space :: "char \<Rightarrow> bool" where
  "is_space c \<longleftrightarrow>
     c \<in> set [CHR '' '', CHR 0x09, CHR 0x0A, CHR 0x0B, CHR 0x0C, CHR 0x0D,
              CHR 0x1C, CHR 0x1D, CHR 0x1E, CHR 0x1F]"

definition strip :: "string \<Rightarrow> string" where
  "strip s = rev (dropWhile is_space (rev (dropWhile is_space s)))"

fun split_on :: "char \<Rightarrow> string \<Rightarrow> string list" where
  "split_on sep [] = [[]]"
| "split_on sep (c # cs) =
     (if c = sep then [] # split_on sep cs
      else (case split_on sep cs of
              [] \<Rightarrow> [[c]]
            | w # ws \<Rightarrow> (c # w) # ws))"

fun join :: "string \<Rightarrow> string list \<Rightarrow> string" where
  "join sep [] = []"
| "join sep [x] = x"
| "join sep (x # y # ys) = x @ sep @ join sep (y # ys)"

definition digit_char :: "nat \<Rightarrow> char" where
  "digit_char d = ''0123456789'' ! (d mod 10)"

fun str_nat :: "nat \<Rightarrow> string" where
  "str_nat n = (if n < 10 then [digit_char n] else str_nat (n div 10) @ [digit_char (n mod 10)])"

declare str_nat.simps [simp del]

definition ends_with :: "string \<Rightarrow> string \<Rightarrow> bool" where
  "ends_with s suf \<longleftrightarrow> length suf \<le> length s \<and> drop (length s - length suf) s = suf"

section \<open>Paths\<close>

text \<open>
  A \<open>pathlib.Path\<close> on a POSIX system is its tuple of parts; an absolute path has the
  root \<open>''/''\<close> as first part.  Equality, hashing and ordering of \<open>Path\<close> objects are
  those of the parts (lexicographic order on the tuple), which is the order
  \<open>sorted\<close> uses.  \<open>Path\<close> is the constructor from a string, \<open>path_str\<close> is
  \<open>str(p)\<close>, \<open>path_name\<close>, \<open>path_stem\<close>, \<open>path_suffix\<close> and \<open>path_parent\<close>
  are the properties \<open>name\<close>, \<open>stem\<close>, \<open>suffix\<close> and \<open>parent\<close>;
  \<open>path_child p s\<close> is \<open>p / s\<close> for a string \<open>s\<close> that is a single file name
  (no slash), the only way the source uses the operator.
\<close>

type_synonym path = "string list"

definition Path :: "string \<Rightarrow> path" where
  "Path s =
     (if s \<noteq> [] \<and> hd s = CHR ''/'' then [''/''] else []) @
     filter (\<lambda>p. p \<noteq> [] \<and> p \<noteq> ''.'') (split_on CHR ''/'' s)"

definition is_absolute :: "path \<Rightarrow> bool" where
  "is_absolute p \<longleftrightarrow> p \<noteq> [] \<and> hd p = ''/''"

definition path_str :: "path \<Rightarrow> string" where
  "path_str p =
     (if p = [] then ''.''
      else if is_absolute p then ''/'' @ join ''/'' (tl p)
      else join ''/'' p)"

definition path_name :: "path \<Rightarrow> string" where
  "path_name p =
     (if p = [] \<or> p = [''/''] then [] else last p)"

text \<open>
  \<open>rfind_dot s\<close> is \<open>s.rfind('.')\<close>, with \<open>None\<close> for \<open>-1\<close>.
\<close>

definition rfind_dot :: "string \<Rightarrow> nat option" where
  "rfind_dot s =
     (if CHR ''.'' \<in> set s
      then Some (length s - 1 - length (takeWhile (\<lambda>c. c \<noteq> CHR ''.'') (rev s)))
      else None)"

definition path_suffix :: "path \<Rightarrow> string" where
  "path_suffix p =
     (let name = path_name p in
      case rfind_dot name of
        None \<Rightarrow> []
      | Some i \<Rightarrow> if 0 < i \<and> i < length name - 1 then drop i name else [])"

definition path_stem :: "path \<Rightarrow> string" where
  "path_stem p =
     (let name = path_name p in
      case rfind_dot name of
        None \<Rightarrow> name
      | Some i \<Rightarrow> if 0 < i \<and> i < length name - 1 then take i name else name)"

definition path_parent :: "path \<Rightarrow> path" where
  "path_parent p =
     (if p = [] \<or> p = [''/''] then p else butlast p)"

definition path_child :: "path \<Rightarrow> string \<Rightarrow> path" where
  "path_child p s = (if s = [] then p else p @ [s])"

section \<open>Errors, files and the environment\<close>

text \<open>
  Every exception the source can raise is a value of \<open>error\<close>; a function that can
  raise returns \<open>error + 'a\<close> with \<open>Inl\<close> for the exception.
\<close>

datatype error =
    ValueError
  | IndexError
  | EOFError
  | FileNotFoundError
  | FileExistsError
  | NotADirectoryError
  | IsADirectoryError
  | RuntimeError
  | ExternalError string

text \<open>
  A decoded row of \<open>csv.DictReader\<close> and a decoded bookmark entry are dictionaries from
  strings to strings (an absent key and a \<open>None\<close> value are both \<open>None\<close> of
  \<open>map_of\<close>).  A decoded bookmarks document is either a dictionary, of which only the
  value under \<open>"bookmarks"\<close> is read, or a list of entries.
\<close>

type_synonym entry = "(string \<times> string) list"

datatype json_doc = JDict "entry list option" | JList "entry list"

record email_message =
  msg_subject :: string
  msg_from :: string
  msg_to :: string
  msg_content :: string
  msg_attachments :: "(string \<times> string \<times> string) list"

text \<open>
  The filesystem is a finite table from absolute paths to nodes; a regular file holds its
  text.  \<open>ext\<close> collects what the program reads but never changes and the external
  collaborators it calls: the working directory and home directory, \<open>os.environ\<close>, the
  decoders \<open>json.load\<close> and \<open>csv.DictReader\<close>, the row encoder of \<open>csv.DictWriter\<close>,
  the summariser (text extraction and the language model), the SMTP session and the two
  renderings of \<open>datetime.utcnow()\<close> at the n-th reading of the clock.
\<close>

datatype node = Dir | File string

record ext =
  cwd :: path
  home :: path
  environ :: "(string \<times> string) list"
  json_load :: "string \<Rightarrow> error + json_doc"
  csv_DictReader :: "string \<Rightarrow> error + entry list"
  csv_writerow :: "string list \<Rightarrow> string"
  ext_summarize :: "string \<Rightarrow> int \<Rightarrow> int \<Rightarrow> path \<Rightarrow> error + string"
  smtp :: "string \<Rightarrow> int \<Rightarrow> bool \<Rightarrow> (string \<times> string) option \<Rightarrow> email_message \<Rightarrow> error option"
  utcnow_isoformat :: "nat \<Rightarrow> string"
  utcnow_compact :: "nat \<Rightarrow> string"

text \<open>
  What the program does to the outside is recorded in a trace: every call of
  \<open>shutil.move\<close>, every SMTP session that is opened (whether or not it succeeds), every
  message given to the logger, and every file handed to the desktop's viewer.
\<close>

datatype event =
    Moved path path
  | SmtpCall string int email_message
  | LogInfo string
  | LogError string
  | LogFailure string error
  | Opened path

record world =
  nodes :: "(path \<times> node) list"
  stdin :: "string list"
  ticks :: nat
  trace :: "event list"

definition resolve :: "ext \<Rightarrow> path \<Rightarrow> path" where
  "resolve x p = (if is_absolute p then p else cwd x @ p)"

definition expanduser :: "ext \<Rightarrow> path \<Rightarrow> path" where
  "expanduser x p =
     (case p of
        [] \<Rightarrow> []
      | a # rest \<Rightarrow> if a = ''~'' then home x @ rest else p)"

definition lookup_node :: "ext \<Rightarrow> world \<Rightarrow> path \<Rightarrow> node option" where
  "lookup_node x w p = map_of (nodes w) (resolve x p)"

definition path_exists :: "ext \<Rightarrow> world \<Rightarrow> path \<Rightarrow> bool" where
  "path_exists x w p \<longleftrightarrow> lookup_node x w p \<noteq> None"

definition read_text :: "ext \<Rightarrow> world \<Rightarrow> path \<Rightarrow> error + string" where
  "read_text x w p =
     (case lookup_node x w p of
        None \<Rightarrow> Inl FileNotFoundError
      | Some Dir \<Rightarrow> Inl IsADirectoryError
      | Some (File t) \<Rightarrow> Inr t)"

fun strip_prefix :: "'a list \<Rightarrow> 'a list \<Rightarrow> 'a list option" where
  "strip_prefix [] ys = Some ys"
| "strip_prefix (x # xs) [] = None"
| "strip_prefix (x # xs) (y # ys) = (if x = y then strip_prefix xs ys else None)"

text \<open>
  \<open>rglob_pdf x w folder\<close> is \<open>folder.rglob("*.pdf")\<close>: every entry below the directory
  whose name ends in \<open>.pdf\<close>, spelled as the folder's own spelling followed by the
  relative parts.  The order of enumeration is that of the table; the source sorts it.
\<close>

definition rglob_pdf :: "ext \<Rightarrow> world \<Rightarrow> path \<Rightarrow> path list" where
  "rglob_pdf x w folder =
     (case lookup_node x w folder of
        Some Dir \<Rightarrow>
          List.map_filter
            (\<lambda>k. case strip_prefix (resolve x folder) k of
                    None \<Rightarrow> None
                  | Some rel \<Rightarrow>
                      if rel \<noteq> [] \<and> ends_with (last rel) ''.pdf''
                      then Some (folder @ rel) else None)
            (remdups (map fst (nodes w)))
      | _ \<Rightarrow> [])"

section \<open>discover.py\<close>

record metadata_record =
  mr_title :: string
  mr_file_key :: string
  mr_authors :: "string option"
  mr_year :: "string option"
  mr_source :: string

record PaperCandidate =
  pc_path :: path
  pc_title :: string
  pc_metadata :: "metadata_record option"

record source =
  src_type :: "string option"
  src_path :: string

text \<open>
  \<open>get_or e k\<close> is \<open>e.get(k)\<close> read for its truth value: \<open>None\<close> when the key is
  absent or its value is empty, so that \<open>a.get(k1) or a.get(k2) or ""\<close> is a chain of
  \<open>case\<close>s.
\<close>

definition get_or :: "entry \<Rightarrow> string \<Rightarrow> string option" where
  "get_or e k =
     (case map_of e k of
        None \<Rightarrow> None
      | Some v \<Rightarrow> if v = [] then None else Some v)"

definition bookmark_record :: "path \<Rightarrow> entry \<Rightarrow> metadata_record option" where
  "bookmark_record p e =
     (let file_path =
            (case get_or e ''path'' of
               Some v \<Rightarrow> v
             | None \<Rightarrow> (case get_or e ''file'' of Some v \<Rightarrow> v | None \<Rightarrow> []))
      in if file_path = [] then None
         else Some \<lparr>mr_title =
                       (case get_or e ''title'' of
                          Some t \<Rightarrow> t
                        | None \<Rightarrow> path_stem (Path file_path)),
                     mr_file_key = lower (path_name (Path file_path)),
                     mr_authors = None,
                     mr_year = None,
                     mr_source = path_str p\<rparr>)"

definition parse_bookmarks_json :: "ext \<Rightarrow> world \<Rightarrow> path \<Rightarrow> error + metadata_record list" where
  "parse_bookmarks_json x w p =
     (case read_text x w p of
        Inl e \<Rightarrow> Inl e
      | Inr txt \<Rightarrow>
          (case json_load x txt of
             Inl e \<Rightarrow> Inl e
           | Inr data \<Rightarrow>
               (let entries =
                      (case data of
                         JDict None \<Rightarrow> []
                       | JDict (Some es) \<Rightarrow> es
                       | JList es \<Rightarrow> es)
                in Inr (List.map_filter (bookmark_record p) entries))))"

definition first_attachment :: "string \<Rightarrow> string" where
  "first_attachment a = strip (takeWhile (\<lambda>c. c \<noteq> CHR '';'') a)"

definition reference_record :: "path \<Rightarrow> entry \<Rightarrow> metadata_record option" where
  "reference_record p row =
     (let attachment =
            (case get_or row ''File Attachments'' of
               Some v \<Rightarrow> v
             | None \<Rightarrow>
                 (case get_or row ''Attachments'' of
                    Some v \<Rightarrow> v
                  | None \<Rightarrow>
                      (case get_or row ''file'' of
                         Some v \<Rightarrow> v
                       | None \<Rightarrow> (case get_or row ''path'' of Some v \<Rightarrow> v | None \<Rightarrow> []))))
      in if attachment = [] then None
         else let attachment = first_attachment attachment
              in if attachment = [] then None
                 else Some \<lparr>mr_title =
                               (case get_or row ''Title'' of
                                  Some t \<Rightarrow> t
                                | None \<Rightarrow>
                                    (case get_or row ''title'' of
                                       Some t \<Rightarrow> t
                                     | None \<Rightarrow> path_stem (Path attachment))),
                             mr_file_key = lower (path_name (Path attachment)),
                             mr_authors =
                               (case get_or row ''Author'' of
                                  Some a \<Rightarrow> Some a
                                | None \<Rightarrow> map_of row ''Authors''),
                             mr_year = map_of row ''Year'',
                             mr_source = path_str p\<rparr>)"

definition parse_reference_export :: "ext \<Rightarrow> world \<Rightarrow> path \<Rightarrow> error + metadata_record list" where
  "parse_reference_export x w p =
     (case read_text x w p of
        Inl e \<Rightarrow> Inl e
      | Inr txt \<Rightarrow>
          (case csv_DictReader x txt of
             Inl e \<Rightarrow> Inl e
           | Inr rows \<Rightarrow> Inr (List.map_filter (reference_record p) rows)))"

text \<open>
  \<open>source_records x w s\<close> is the list \<open>records\<close> that one iteration of the loop of
  \<open>_build_metadata_lookup\<close> inserts for the source \<open>s\<close>: nothing when the iteration ends
  in a \<open>continue\<close> (file missing, unknown type, or an exception while parsing).
\<close>

definition source_records :: "ext \<Rightarrow> world \<Rightarrow> source \<Rightarrow> metadata_record list" where
  "source_records x w s =
     (let source_type =
            lower (case src_type s of
                     None \<Rightarrow> ''bookmarks''
                   | Some t \<Rightarrow> if t = [] then ''bookmarks'' else t);
          p = expanduser x (Path (src_path s))
      in if \<not> path_exists x w p then []
         else if source_type = ''bookmarks'' then
           (case parse_bookmarks_json x w p of Inl e \<Rightarrow> [] | Inr records \<Rightarrow> records)
         else if source_type \<in> {''zotero'', ''mendeley''} then
           (case parse_reference_export x w p of Inl e \<Rightarrow> [] | Inr records \<Rightarrow> records)
         else [])"

type_synonym metadata_lookup = "string \<rightharpoonup> metadata_record"

fun insert_records :: "metadata_lookup \<Rightarrow> metadata_record list \<Rightarrow> metadata_lookup" where
  "insert_records lookup [] = lookup"
| "insert_records lookup (r # records) =
     (if mr_file_key r = [] then insert_records lookup records
      else insert_records (lookup(mr_file_key r \<mapsto> r)) records)"

fun build_lookup_from :: "ext \<Rightarrow> world \<Rightarrow> metadata_lookup \<Rightarrow> source list \<Rightarrow> metadata_lookup" where
  "build_lookup_from x w lookup [] = lookup"
| "build_lookup_from x w lookup (s # sources) =
     build_lookup_from x w (insert_records lookup (source_records x w s)) sources"

definition build_metadata_lookup :: "ext \<Rightarrow> world \<Rightarrow> source list \<Rightarrow> metadata_lookup" where
  "build_metadata_lookup x w sources = build_lookup_from x w Map.empty sources"

text \<open>
  The inner loop of \<open>discover_papers\<close> over the sorted paths of one folder, and the outer
  loop over the folders; \<open>candidates\<close> and \<open>seen_paths\<close> are the two accumulators.
\<close>

fun scan_pdfs ::
  "metadata_lookup \<Rightarrow> path list \<Rightarrow> PaperCandidate list \<times> path set \<Rightarrow> PaperCandidate list \<times> path set"
where
  "scan_pdfs lookup [] acc = acc"
| "scan_pdfs lookup (pdf_path # rest) (candidates, seen_paths) =
     (let norm_key = lower (path_name pdf_path);
          info = lookup norm_key;
          title = (case info of
                     None \<Rightarrow> path_stem pdf_path
                   | Some r \<Rightarrow> if mr_title r = [] then path_stem pdf_path else mr_title r)
      in if pdf_path \<in> seen_paths then scan_pdfs lookup rest (candidates, seen_paths)
         else scan_pdfs lookup rest
                (candidates @ [\<lparr>pc_path = pdf_path, pc_title = title, pc_metadata = info\<rparr>],
                 insert pdf_path seen_paths))"

fun scan_folders ::
  "ext \<Rightarrow> world \<Rightarrow> metadata_lookup \<Rightarrow> string list \<Rightarrow> PaperCandidate list \<times> path set
     \<Rightarrow> PaperCandidate list \<times> path set"
where
  "scan_folders x w lookup [] acc = acc"
| "scan_folders x w lookup (folder # folders) acc =
     (let folder_path = expanduser x (Path folder)
      in if \<not> path_exists x w folder_path then scan_folders x w lookup folders acc
         else scan_folders x w lookup folders
                (scan_pdfs lookup (sort (rglob_pdf x w folder_path)) acc))"

definition discover_papers ::
  "ext \<Rightarrow> world \<Rightarrow> string list \<Rightarrow> source list option \<Rightarrow> PaperCandidate list"
where
  "discover_papers x w folders metadata_sources =
     (let metadata_lookup =
            build_metadata_lookup x w
              (case metadata_sources of None \<Rightarrow> [] | Some ss \<Rightarrow> ss)
      in fst (scan_folders x w metadata_lookup folders ([], {})))"

section \<open>ui.py\<close>

type_synonym action = "PaperCandidate \<times> string \<times> string"

definition auto_decide :: "string \<Rightarrow> error + string" where
  "auto_decide mode =
     (case mode of
        [] \<Rightarrow> Inl IndexError
      | c # cs \<Rightarrow>
          (let short = lower [c]
           in if short \<in> {''k'', ''r'', ''s''} then Inr short else Inl ValueError))"

text \<open>
  \<open>Prompt.ask(..., default="k")\<close> reads one line of the operator's input and returns
  the default for an empty line, the stripped line otherwise; at the end of the input it
  raises \<open>EOFError\<close>.  The loop of \<open>_prompt_for_decision\<close> consumes lines until one
  is a decision; \<open>o\<close> opens the file (errors of the viewer are caught by \<open>_open_file\<close>)
  and asks again.  Rendering on the console is not modelled.
\<close>

definition prompt_ask :: "string \<Rightarrow> string \<Rightarrow> string" where
  "prompt_ask dflt line = (if line = [] then dflt else strip line)"

fun prompt_loop ::
  "path \<Rightarrow> string list \<Rightarrow> event list \<Rightarrow> (error + string) \<times> string list \<times> event list"
where
  "prompt_loop p [] tr = (Inl EOFError, [], tr)"
| "prompt_loop p (line # rest) tr =
     (let choice = lower (strip (prompt_ask ''k'' line))
      in if choice = ''o'' then prompt_loop p rest (tr @ [Opened p])
         else if choice \<in> {''k'', ''r'', ''s''} then (Inr choice, rest, tr)
         else prompt_loop p rest tr)"

definition prompt_for_decision ::
  "world \<Rightarrow> PaperCandidate \<Rightarrow> string \<Rightarrow> bool \<Rightarrow> (error + string) \<times> world"
where
  "prompt_for_decision w paper summary dry_run =
     (case prompt_loop (pc_path paper) (stdin w) (trace w) of
        (r, rest, tr) \<Rightarrow> (r, w\<lparr>stdin := rest, trace := tr\<rparr>))"

text \<open>
  The loop of \<open>triage_papers\<close>; \<open>actions\<close> is the accumulator.  \<open>if auto_decision\<close>
  holds for a string that is neither \<open>None\<close> nor empty.
\<close>

fun triage_loop ::
  "(PaperCandidate \<Rightarrow> error + string) \<Rightarrow> bool \<Rightarrow> string option \<Rightarrow> PaperCandidate list
     \<Rightarrow> action list \<Rightarrow> world \<Rightarrow> (error + action list) \<times> world"
where
  "triage_loop summary_fn dry_run auto_decision [] actions w = (Inr actions, w)"
| "triage_loop summary_fn dry_run auto_decision (paper # papers) actions w =
     (case summary_fn paper of
        Inl e \<Rightarrow> (Inl e, w)
      | Inr summary \<Rightarrow>
          (case (case auto_decision of
                   None \<Rightarrow> prompt_for_decision w paper summary dry_run
                 | Some mode \<Rightarrow>
                     if mode = [] then prompt_for_decision w paper summary dry_run
                     else (auto_decide mode, w)) of
             (Inl e, w') \<Rightarrow> (Inl e, w')
           | (Inr decision, w') \<Rightarrow>
               triage_loop summary_fn dry_run auto_decision papers
                 (actions @ [(paper, summary, decision)]) w'))"

definition triage_papers ::
  "PaperCandidate list \<Rightarrow> (PaperCandidate \<Rightarrow> error + string) \<Rightarrow> bool \<Rightarrow> string option
     \<Rightarrow> world \<Rightarrow> (error + action list) \<times> world"
where
  "triage_papers papers summary_fn dry_run auto_decision w =
     triage_loop summary_fn dry_run auto_decision papers [] w"

section \<open>log.py\<close>

definition LOG_FIELDS :: "string list" where
  "LOG_FIELDS = [''timestamp'', ''title'', ''path'', ''summary'', ''decision'', ''dry_run'']"

record log_entry =
  le_timestamp :: string
  le_title :: string
  le_path :: string
  le_summary :: string
  le_decision :: string
  le_dry_run :: string

text \<open>
  The cells \<open>DictWriter.writerow\<close> writes for an entry: its values in the order of
  \<open>LOG_FIELDS\<close>.
\<close>

definition entry_row :: "log_entry \<Rightarrow> string list" where
  "entry_row e =
     [le_timestamp e, le_title e, le_path e, le_summary e, le_decision e, le_dry_run e]"

text \<open>
  \<open>mkdir_parents\<close> is \<open>p.mkdir(parents=True, exist_ok=True)\<close>: it creates every missing
  directory on the way to \<open>p\<close> and fails when a regular file is in the way.
  \<open>open_append\<close> and \<open>write_text\<close> are \<open>open(p, "a")\<close> followed by writes, and
  \<open>p.write_text\<close>: both create the file in an existing directory when it is absent.
  Permissions are not modelled.
\<close>

fun mkdir_prefixes ::
  "(path \<times> node) list \<Rightarrow> path \<Rightarrow> string list \<Rightarrow> error + (path \<times> node) list"
where
  "mkdir_prefixes ns pre [] = Inr ns"
| "mkdir_prefixes ns pre (part # rest) =
     (let d = pre @ [part]
      in case map_of ns d of
           Some (File t) \<Rightarrow> Inl (if rest = [] then FileExistsError else NotADirectoryError)
         | Some Dir \<Rightarrow> mkdir_prefixes ns d rest
         | None \<Rightarrow> mkdir_prefixes ((d, Dir) # ns) d rest)"

definition mkdir_parents :: "ext \<Rightarrow> world \<Rightarrow> path \<Rightarrow> (error + unit) \<times> world" where
  "mkdir_parents x w p =
     (case mkdir_prefixes (nodes w) [] (resolve x p) of
        Inl e \<Rightarrow> (Inl e, w)
      | Inr ns \<Rightarrow> (Inr (), w\<lparr>nodes := ns\<rparr>))"

definition open_append :: "ext \<Rightarrow> world \<Rightarrow> path \<Rightarrow> string \<Rightarrow> (error + unit) \<times> world" where
  "open_append x w p txt =
     (case lookup_node x w p of
        Some Dir \<Rightarrow> (Inl IsADirectoryError, w)
      | Some (File old) \<Rightarrow>
          (Inr (), w\<lparr>nodes := AList.update (resolve x p) (File (old @ txt)) (nodes w)\<rparr>)
      | None \<Rightarrow>
          (case map_of (nodes w) (butlast (resolve x p)) of
             Some Dir \<Rightarrow>
               (Inr (), w\<lparr>nodes := AList.update (resolve x p) (File txt) (nodes w)\<rparr>)
           | Some (File t) \<Rightarrow> (Inl NotADirectoryError, w)
           | None \<Rightarrow> (Inl FileNotFoundError, w)))"

definition write_text :: "ext \<Rightarrow> world \<Rightarrow> path \<Rightarrow> string \<Rightarrow> (error + unit) \<times> world" where
  "write_text x w p txt =
     (case lookup_node x w p of
        Some Dir \<Rightarrow> (Inl IsADirectoryError, w)
      | Some (File old) \<Rightarrow>
          (Inr (), w\<lparr>nodes := AList.update (resolve x p) (File txt) (nodes w)\<rparr>)
      | None \<Rightarrow>
          (case map_of (nodes w) (butlast (resolve x p)) of
             Some Dir \<Rightarrow>
               (Inr (), w\<lparr>nodes := AList.update (resolve x p) (File txt) (nodes w)\<rparr>)
           | Some (File t) \<Rightarrow> (Inl NotADirectoryError, w)
           | None \<Rightarrow> (Inl FileNotFoundError, w)))"

definition append_log_entry ::
  "ext \<Rightarrow> world \<Rightarrow> path \<Rightarrow> log_entry \<Rightarrow> (error + unit) \<times> world"
where
  "append_log_entry x w log_path entry =
     (case mkdir_parents x w (path_parent log_path) of
        (Inl e, w') \<Rightarrow> (Inl e, w')
      | (Inr u, w') \<Rightarrow>
          (let file_exists = path_exists x w' log_path
           in open_append x w' log_path
                ((if \<not> file_exists then csv_writerow x LOG_FIELDS else []) @
                 csv_writerow x (entry_row entry))))"

definition digest_lines :: "log_entry list \<Rightarrow> string list" where
  "digest_lines actions =
     [''# Weekly Paper Digest'', []] @
     concat (map (\<lambda>a. [''## '' @ le_title a,
                        ''- Decision: **'' @ le_decision a @ ''**'',
                        ''- File: `'' @ le_path a @ ''`'',
                        [],
                        (if le_summary a = [] then ''(no summary)'' else le_summary a),
                        []]) actions)"

definition write_digest ::
  "ext \<Rightarrow> world \<Rightarrow> path \<Rightarrow> log_entry list \<Rightarrow> (error + path) \<times> world"
where
  "write_digest x w digest_dir actions =
     (case mkdir_parents x w digest_dir of
        (Inl e, w') \<Rightarrow> (Inl e, w')
      | (Inr u, w') \<Rightarrow>
          (let timestamp = utcnow_compact x (ticks w');
               w'' = w'\<lparr>ticks := ticks w' + 1\<rparr>;
               digest_path = path_child digest_dir (''digest-'' @ timestamp @ ''.md'')
           in case write_text x w'' digest_path (join [CHR 0x0A] (digest_lines actions)) of
                (Inl e, w3) \<Rightarrow> (Inl e, w3)
              | (Inr u, w3) \<Rightarrow> (Inr digest_path, w3)))"

section \<open>emailer.py\<close>

fun add_attachments ::
  "ext \<Rightarrow> world \<Rightarrow> (string \<times> path) list \<Rightarrow> email_message \<Rightarrow> error + email_message"
where
  "add_attachments x w [] message = Inr message"
| "add_attachments x w ((filename, p) # rest) message =
     (if \<not> path_exists x w p then add_attachments x w rest message
      else
        (let subtype = (if lower (path_suffix p) \<in> {''.md'', ''.markdown''}
                        then ''markdown'' else ''plain'')
         in case read_text x w p of
              Inl e \<Rightarrow> Inl e
            | Inr data \<Rightarrow>
                add_attachments x w rest
                  (message\<lparr>msg_attachments :=
                             msg_attachments message @ [(filename, subtype, data)]\<rparr>)))"

definition build_message ::
  "ext \<Rightarrow> world \<Rightarrow> string \<Rightarrow> string \<Rightarrow> string list \<Rightarrow> string list \<Rightarrow> (string \<times> path) list
     \<Rightarrow> error + email_message"
where
  "build_message x w subject sender recipients body_lines attachments =
     add_attachments x w attachments
       \<lparr>msg_subject = subject,
        msg_from = sender,
        msg_to = join '', '' recipients,
        msg_content = join [CHR 0x0A] body_lines,
        msg_attachments = []\<rparr>"

text \<open>
  \<open>send_message\<close> opens one SMTP session, with \<open>starttls\<close> when \<open>use_tls\<close> holds, logs
  in when both a user name and a password are given, and sends; the session is the
  collaborator \<open>smtp\<close>, whose answer is the exception it raised, if any.
\<close>

definition send_message ::
  "ext \<Rightarrow> world \<Rightarrow> email_message \<Rightarrow> string \<Rightarrow> int \<Rightarrow> string option \<Rightarrow> string option \<Rightarrow> bool
     \<Rightarrow> (error + unit) \<times> world"
where
  "send_message x w message host port username password use_tls =
     (let login = (case (username, password) of
                     (Some u, Some pw) \<Rightarrow> if u \<noteq> [] \<and> pw \<noteq> [] then Some (u, pw) else None
                   | _ \<Rightarrow> None);
          w' = w\<lparr>trace := trace w @ [SmtpCall host port message]\<rparr>
      in case smtp x host port use_tls login message of
           Some e \<Rightarrow> (Inl e, w')
         | None \<Rightarrow> (Inr (), w'))"

section \<open>main.py\<close>

text \<open>
  The configuration and the command line, with the types the defaults of
  \<open>load_config\<close> and the parser give them; \<open>None\<close> is a key that is absent (or a flag
  that was not given), for which \<open>config.get(key, default)\<close> yields its default.
\<close>

record email_cfg =
  ec_enabled :: bool
  ec_sender :: "string option"
  ec_recipients :: "string list option"
  ec_subject :: "string option"
  ec_password_env :: "string option"
  ec_smtp_host :: "string option"
  ec_smtp_port :: "int option"
  ec_username :: "string option"
  ec_use_tls :: "bool option"

record auto_cfg =
  ac_enabled :: bool
  ac_default :: "string option"

record config =
  cfg_input_folders :: "string list"
  cfg_metadata_sources :: "source list option"
  cfg_archive_dir :: "string option"
  cfg_log_path :: "string option"
  cfg_digest_dir :: "string option"
  cfg_max_pages :: "int option"
  cfg_max_chars :: "int option"
  cfg_model :: "string option"
  cfg_auto_decision :: auto_cfg
  cfg_digest_enabled :: bool
  cfg_email :: email_cfg

record args =
  a_dry_run :: bool
  a_max_pages :: "int option"
  a_max_chars :: "int option"
  a_archive :: "string option"
  a_log_path :: "string option"
  a_digest_dir :: "string option"
  a_auto_decision :: "string option"

text \<open>
  \<open>get_default v d\<close> is \<open>cfg.get(key, d)\<close>; \<open>str_or a d\<close> and \<open>int_or a d\<close> are
  \<open>a or d\<close> for an optional string and an optional integer.
\<close>

definition get_default :: "'a option \<Rightarrow> 'a \<Rightarrow> 'a" where
  "get_default v d = (case v of None \<Rightarrow> d | Some a \<Rightarrow> a)"

definition str_or :: "string option \<Rightarrow> string \<Rightarrow> string" where
  "str_or a d = (case a of None \<Rightarrow> d | Some s \<Rightarrow> if s = [] then d else s)"

definition int_or :: "int option \<Rightarrow> int \<Rightarrow> int" where
  "int_or a d = (case a of None \<Rightarrow> d | Some n \<Rightarrow> if n = 0 then d else n)"

text \<open>
  \<open>summarize_factory\<close>: the first statement of \<open>extract_text\<close> raises \<open>ValueError\<close>
  for a page limit that is not positive; the rest (reading the PDF, calling the model) is
  the collaborator \<open>ext_summarize\<close>, a function of the path, so that the cache of
  \<open>lru_cache\<close> is invisible.
\<close>

definition summarize_factory ::
  "ext \<Rightarrow> string \<Rightarrow> int \<Rightarrow> int \<Rightarrow> PaperCandidate \<Rightarrow> error + string"
where
  "summarize_factory x model max_pages max_chars paper =
     (if max_pages \<le> 0 then Inl ValueError
      else ext_summarize x model max_pages max_chars (pc_path paper))"

text \<open>
  \<open>suffixed stem suffix counter\<close> is the f-string \<open>{stem}-{counter}{suffix}\<close>.  The loop
  of \<open>_unique_target\<close> ends because the names it tries are pairwise different and the
  filesystem holds finitely many entries; the facts about \<open>str_nat\<close> that show it come
  first.
\<close>

definition suffixed :: "string \<Rightarrow> string \<Rightarrow> nat \<Rightarrow> string" where
  "suffixed stem suffix counter = stem @ ''-'' @ str_nat counter @ suffix"

definition digit_val :: "char \<Rightarrow> nat" where
  "digit_val c = of_char c - 48"

definition nat_of_str :: "string \<Rightarrow> nat" where
  "nat_of_str s = foldl (\<lambda>a c. 10 * a + digit_val c) 0 s"

lemma digit_val_digit_char: "d < 10 \<Longrightarrow> digit_val (digit_char d) = d"
proof -
  assume "d < 10"
  then have "d \<in> {0, 1, 2, 3, 4, 5, 6, 7, 8, 9}" by auto
  then show ?thesis by (auto simp: digit_val_def digit_char_def)
qed

lemma nat_of_str_str_nat: "nat_of_str (str_nat n) = n"
proof (induction n rule: str_nat.induct)
  case (1 n)
  show ?case
  proof (cases "n < 10")
    case True
    then show ?thesis
      by (subst str_nat.simps) (simp add: nat_of_str_def digit_val_digit_char)
  next
    case False
    with 1 have "nat_of_str (str_nat (n div 10)) = n div 10" by simp
    with False show ?thesis
      by (subst str_nat.simps) (simp add: nat_of_str_def digit_val_digit_char)
  qed
qed

lemma str_nat_inj: "str_nat m = str_nat n \<Longrightarrow> m = n"
  by (metis nat_of_str_str_nat)

lemma str_nat_nonempty: "str_nat n \<noteq> []"
  by (subst str_nat.simps) simp

lemma suffixed_inj: "suffixed stem suffix m = suffixed stem suffix n \<Longrightarrow> m = n"
  by (simp add: suffixed_def str_nat_inj)

lemma suffixed_length: "2 \<le> length (suffixed stem suffix n)"
proof -
  have "1 \<le> length (str_nat n)"
    using str_nat_nonempty[of n] by (cases "str_nat n") auto
  then show ?thesis by (simp add: suffixed_def)
qed

lemma suffixed_not_root: "suffixed stem suffix n \<noteq> ''/''"
  using suffixed_length[of stem suffix n] by auto

lemma suffixed_nonempty: "suffixed stem suffix n \<noteq> []"
  using suffixed_length[of stem suffix n] by auto

lemma resolve_child:
  "resolve x (path_child parent (suffixed stem suffix n)) =
     (if is_absolute parent then parent else cwd x @ parent) @ [suffixed stem suffix n]"
  by (cases parent)
     (auto simp: resolve_def path_child_def is_absolute_def suffixed_nonempty suffixed_not_root)

lemma resolve_child_inj:
  "resolve x (path_child parent (suffixed stem suffix m)) =
   resolve x (path_child parent (suffixed stem suffix n)) \<Longrightarrow> m = n"
  by (auto simp: resolve_child dest: suffixed_inj)

definition taken_from :: "ext \<Rightarrow> world \<Rightarrow> path \<Rightarrow> string \<Rightarrow> string \<Rightarrow> nat \<Rightarrow> path set" where
  "taken_from x w parent stem suffix counter =
     {k \<in> fst ` set (nodes w).
        \<exists>c \<ge> counter. k = resolve x (path_child parent (suffixed stem suffix c))}"

lemma path_exists_fst: "path_exists x w p \<Longrightarrow> resolve x p \<in> fst ` set (nodes w)"
  by (auto simp: path_exists_def lookup_node_def dest!: map_of_SomeD intro: rev_image_eqI)

lemma taken_from_decreases:
  assumes "path_exists x w (path_child parent (suffixed stem suffix counter))"
  shows "card (taken_from x w parent stem suffix (Suc counter)) <
         card (taken_from x w parent stem suffix counter)"
proof (rule psubset_card_mono)
  show "finite (taken_from x w parent stem suffix counter)"
    by (simp add: taken_from_def)
  let ?k = "resolve x (path_child parent (suffixed stem suffix counter))"
  have in1: "?k \<in> taken_from x w parent stem suffix counter"
    using path_exists_fst[OF assms] by (auto simp: taken_from_def)
  have out: "?k \<notin> taken_from x w parent stem suffix (Suc counter)"
    by (auto simp: taken_from_def dest: resolve_child_inj)
  have sub: "taken_from x w parent stem suffix (Suc counter)
               \<subseteq> taken_from x w parent stem suffix counter"
    by (auto simp: taken_from_def intro: Suc_leD)
  from in1 out sub
  show "taken_from x w parent stem suffix (Suc counter)
          \<subset> taken_from x w parent stem suffix counter"
    by blast
qed

function unique_target_loop ::
  "ext \<Rightarrow> world \<Rightarrow> path \<Rightarrow> string \<Rightarrow> string \<Rightarrow> nat \<Rightarrow> path"
where
  "unique_target_loop x w parent stem suffix counter =
     (let candidate = path_child parent (suffixed stem suffix counter)
      in if \<not> path_exists x w candidate then candidate
         else unique_target_loop x w parent stem suffix (counter + 1))"
  by pat_completeness auto

termination unique_target_loop
  by (relation "measure (\<lambda>(x, w, parent, stem, suffix, counter).
                  card (taken_from x w parent stem suffix counter))")
     (auto intro: taken_from_decreases)

declare unique_target_loop.simps [simp del]

definition unique_target :: "ext \<Rightarrow> world \<Rightarrow> path \<Rightarrow> path" where
  "unique_target x w target =
     (if \<not> path_exists x w target then target
      else unique_target_loop x w (path_parent target) (path_stem target)
             (path_suffix target) 1)"

text \<open>
  \<open>shutil.move(src, dst)\<close>.  A destination that is an existing directory receives the
  source under its own name, unless that name is taken there; otherwise the source is
  renamed to the destination (replacing a regular file that is there), which moves a
  directory with everything below it.
\<close>

definition rename_nodes :: "path \<Rightarrow> path \<Rightarrow> (path \<times> node) list \<Rightarrow> (path \<times> node) list" where
  "rename_nodes src dst ns =
     map (\<lambda>(k, n). case strip_prefix src k of
                      None \<Rightarrow> (k, n)
                    | Some rel \<Rightarrow> (dst @ rel, n)) ns"

definition os_rename :: "world \<Rightarrow> path \<Rightarrow> path \<Rightarrow> path \<Rightarrow> path \<Rightarrow> (error + unit) \<times> world" where
  "os_rename w src dst s d =
     (case map_of (nodes w) (butlast d) of
        Some Dir \<Rightarrow>
          (Inr (), w\<lparr>nodes := rename_nodes s d (AList.delete d (nodes w)),
                     trace := trace w @ [Moved src dst]\<rparr>)
      | Some (File t) \<Rightarrow> (Inl NotADirectoryError, w)
      | None \<Rightarrow> (Inl FileNotFoundError, w))"

definition shutil_move :: "ext \<Rightarrow> world \<Rightarrow> path \<Rightarrow> path \<Rightarrow> (error + unit) \<times> world" where
  "shutil_move x w src dst =
     (let s = resolve x src; d = resolve x dst
      in if map_of (nodes w) s = None then (Inl FileNotFoundError, w)
         else case map_of (nodes w) d of
                Some Dir \<Rightarrow>
                  (let real_dst = d @ [path_name src]
                   in if map_of (nodes w) real_dst \<noteq> None
                      then (Inl (ExternalError ''shutil.Error''), w)
                      else os_rename w src dst s real_dst)
              | _ \<Rightarrow> os_rename w src dst s d)"

definition archive_paper ::
  "ext \<Rightarrow> world \<Rightarrow> path \<Rightarrow> PaperCandidate \<Rightarrow> (error + unit) \<times> world"
where
  "archive_paper x w archive_dir paper =
     (let target = path_child archive_dir (path_name (pc_path paper));
          target = unique_target x w target
      in shutil_move x w (pc_path paper) target)"

definition resolve_decision_mode :: "auto_cfg \<Rightarrow> args \<Rightarrow> string option" where
  "resolve_decision_mode auto_cfg args =
     (if (case a_auto_decision args of None \<Rightarrow> False | Some m \<Rightarrow> m \<noteq> [])
      then a_auto_decision args
      else if ac_enabled auto_cfg then Some (get_default (ac_default auto_cfg) ''keep'')
      else None)"

text \<open>
  The loop of \<open>triage_once\<close> over the actions; \<open>log_entries\<close> is the accumulator, and
  each reading of the clock advances \<open>ticks\<close>.
\<close>

fun process_actions ::
  "ext \<Rightarrow> bool \<Rightarrow> path \<Rightarrow> path \<Rightarrow> action list \<Rightarrow> log_entry list \<Rightarrow> world
     \<Rightarrow> (error + log_entry list) \<times> world"
where
  "process_actions x dry_run archive_dir log_path [] log_entries w = (Inr log_entries, w)"
| "process_actions x dry_run archive_dir log_path ((paper, summary, decision) # actions)
     log_entries w =
     (case (if decision = ''r'' \<and> \<not> dry_run then archive_paper x w archive_dir paper
            else (Inr (), w)) of
        (Inl e, w1) \<Rightarrow> (Inl e, w1)
      | (Inr u, w1) \<Rightarrow>
          (let entry = \<lparr>le_timestamp = utcnow_isoformat x (ticks w1),
                        le_title = pc_title paper,
                        le_path = path_str (pc_path paper),
                        le_summary = summary,
                        le_decision = decision,
                        le_dry_run = (if dry_run then ''True'' else ''False'')\<rparr>;
               w2 = w1\<lparr>ticks := ticks w1 + 1\<rparr>
           in case append_log_entry x w2 log_path entry of
                (Inl e, w3) \<Rightarrow> (Inl e, w3)
              | (Inr u, w3) \<Rightarrow>
                  process_actions x dry_run archive_dir log_path actions
                    (log_entries @ [entry]) w3))"

definition body_line :: "log_entry \<Rightarrow> string" where
  "body_line entry =
     ''- '' @ le_title entry @ '' '' @ [CHR 0xE2, CHR 0x80, CHR 0x94] @ '' decision: '' @
     le_decision entry @ '' '' @ [CHR 0xE2, CHR 0x80, CHR 0x94] @ '' file: '' @ le_path entry"

text \<open>
  The \<open>try\<close> block at the end of \<open>maybe_send_email\<close>: whatever \<open>send_message\<close> raises
  is logged and the function returns normally.
\<close>

definition try_send ::
  "ext \<Rightarrow> world \<Rightarrow> email_cfg \<Rightarrow> email_message \<Rightarrow> string list \<Rightarrow> string option
     \<Rightarrow> (error + unit) \<times> world"
where
  "try_send x w email_cfg message recipients password =
     (case send_message x w message
             (get_default (ec_smtp_host email_cfg) ''localhost'')
             (get_default (ec_smtp_port email_cfg) 587)
             (ec_username email_cfg)
             password
             (get_default (ec_use_tls email_cfg) True) of
        (Inl exc, w') \<Rightarrow>
          (Inr (), w'\<lparr>trace := trace w' @ [LogFailure ''Failed to send email digest'' exc]\<rparr>)
      | (Inr u, w') \<Rightarrow>
          (Inr (), w'\<lparr>trace := trace w' @
                        [LogInfo (''Email digest sent to '' @ join '', '' recipients)]\<rparr>))"

definition maybe_send_email ::
  "ext \<Rightarrow> world \<Rightarrow> email_cfg \<Rightarrow> log_entry list \<Rightarrow> path option \<Rightarrow> (error + unit) \<times> world"
where
  "maybe_send_email x w email_cfg log_entries digest_path =
     (if \<not> ec_enabled email_cfg then (Inr (), w)
      else if log_entries = [] then
        (Inr (), w\<lparr>trace := trace w @
           [LogInfo ''Email enabled but no triage actions were taken; skipping send.'']\<rparr>)
      else
        (let sender = get_default (ec_sender email_cfg) [];
             recipients = get_default (ec_recipients email_cfg) []
         in if sender = [] \<or> recipients = [] then
              (Inr (), w\<lparr>trace := trace w @
                 [LogError (''Email sending requires '' @ [CHR 0x27] @ ''sender'' @ [CHR 0x27] @
                            '' and '' @ [CHR 0x27] @ ''recipients'' @ [CHR 0x27] @ '' in config.'')]\<rparr>)
            else
              (let subject = get_default (ec_subject email_cfg) ''Weekly paper triage digest'';
                   body_lines =
                     [''Weekly paper triage report'', []] @ map body_line log_entries @
                     [[], ''This email was generated automatically by the paper triage assistant.''];
                   attachments =
                     (case digest_path of
                        None \<Rightarrow> []
                      | Some dp \<Rightarrow> if path_exists x w dp then [(path_name dp, dp)] else [])
               in case build_message x w subject sender recipients body_lines attachments of
                    Inl e \<Rightarrow> (Inl e, w)
                  | Inr message \<Rightarrow>
                      (case ec_password_env email_cfg of
                         None \<Rightarrow> try_send x w email_cfg message recipients None
                       | Some password_env \<Rightarrow>
                           if password_env = [] then
                             try_send x w email_cfg message recipients None
                           else
                             (case map_of (environ x) password_env of
                                None \<Rightarrow>
                                  (Inr (), w\<lparr>trace := trace w @
                                     [LogError (''Email password env var '' @ password_env @
                                                '' is not set; skipping email send.'')]\<rparr>)
                              | Some password \<Rightarrow>
                                  if password = [] then
                                    (Inr (), w\<lparr>trace := trace w @
                                       [LogError (''Email password env var '' @ password_env @
                                                  '' is not set; skipping email send.'')]\<rparr>)
                                  else try_send x w email_cfg message recipients
                                         (Some password))))))"

definition triage_once :: "ext \<Rightarrow> world \<Rightarrow> config \<Rightarrow> args \<Rightarrow> (error + log_entry list) \<times> world" where
  "triage_once x w config args =
     (let papers = discover_papers x w (cfg_input_folders config) (cfg_metadata_sources config)
      in if papers = [] then
           (Inr [], w\<lparr>trace := trace w @
              [LogInfo (''No PDFs found in configured folders.'' @
                        (if a_dry_run args then '' (dry-run)'' else []))]\<rparr>)
         else
           (let archive_dir =
                  expanduser x (Path (str_or (a_archive args)
                                        (get_default (cfg_archive_dir config) ''archive'')))
            in case (if \<not> a_dry_run args then mkdir_parents x w archive_dir else (Inr (), w)) of
                 (Inl e, w1) \<Rightarrow> (Inl e, w1)
               | (Inr u, w1) \<Rightarrow>
                   (let log_path =
                          expanduser x (Path (str_or (a_log_path args)
                                                (get_default (cfg_log_path config) ''triage_log.csv'')));
                        digest_dir =
                          expanduser x (Path (str_or (a_digest_dir args)
                                                (get_default (cfg_digest_dir config) ''digests'')));
                        max_pages = int_or (a_max_pages args) (get_default (cfg_max_pages config) 3);
                        max_chars = int_or (a_max_chars args) (get_default (cfg_max_chars config) 4000);
                        model_name = get_default (cfg_model config) ''llama3.2:latest'';
                        summary_fn = summarize_factory x model_name max_pages max_chars;
                        decision_mode = resolve_decision_mode (cfg_auto_decision config) args
                    in case triage_papers papers summary_fn (a_dry_run args) decision_mode w1 of
                         (Inl e, w2) \<Rightarrow> (Inl e, w2)
                       | (Inr actions, w2) \<Rightarrow>
                           (case process_actions x (a_dry_run args) archive_dir log_path
                                   actions [] w2 of
                              (Inl e, w3) \<Rightarrow> (Inl e, w3)
                            | (Inr log_entries, w3) \<Rightarrow>
                                (case (if log_entries \<noteq> [] \<and> cfg_digest_enabled config then
                                         (case write_digest x w3 digest_dir log_entries of
                                            (Inl e, w4) \<Rightarrow> (Inl e, w4)
                                          | (Inr p, w4) \<Rightarrow> (Inr (Some p), w4))
                                       else (Inr None, w3)) of
                                   (Inl e, w4) \<Rightarrow> (Inl e, w4)
                                 | (Inr digest_path, w4) \<Rightarrow>
                                     (case maybe_send_email x w4 (cfg_email config) log_entries
                                             digest_path of
                                        (Inl e, w5) \<Rightarrow> (Inl e, w5)
                                      | (Inr u, w5) \<Rightarrow> (Inr log_entries, w5)))))))"

section \<open>Example environment\<close>

text \<open>
  A small concrete system on which the theorems below are exercised: the user \<open>u\<close>
  works in \<open>/home/u\<close>, which holds a folder of papers with a subfolder, and two
  bookmark files that both describe \<open>paper.pdf\<close>.
\<close>

definition demo_ext :: ext where
  "demo_ext =
     \<lparr>cwd = [''/'', ''home'', ''u''],
      home = [''/'', ''home'', ''u''],
      environ = [(''SMTP_PASS'', ''hunter2'')],
      json_load =
        (\<lambda>t. if t = ''A'' then
                 Inr (JList [[(''path'', ''/x/Paper.pdf''), (''title'', ''First'')]])
              else if t = ''B'' then
                 Inr (JDict (Some [[(''file'', ''docs/paper.pdf''), (''title'', ''Second'')]]))
              else Inl (ExternalError ''JSONDecodeError'')),
      csv_DictReader = (\<lambda>t. Inr []),
      csv_writerow = (\<lambda>cells. join '','' cells @ [CHR 0x0D, CHR 0x0A]),
      ext_summarize = (\<lambda>m mp mc p. Inr ''A short summary.''),
      smtp = (\<lambda>h p t c m. None),
      utcnow_isoformat = (\<lambda>n. ''2024-01-07T09:00:0'' @ str_nat n),
      utcnow_compact = (\<lambda>n. ''2024-01-07-09000'' @ str_nat n)\<rparr>"

definition demo_world :: world where
  "demo_world =
     \<lparr>nodes =
        [([''/'', ''home'', ''u'', ''papers''], Dir),
         ([''/'', ''home'', ''u'', ''papers'', ''a.pdf''], File ''%PDF a''),
         ([''/'', ''home'', ''u'', ''papers'', ''sub''], Dir),
         ([''/'', ''home'', ''u'', ''papers'', ''sub'', ''a.pdf''], File ''%PDF b''),
         ([''/'', ''home'', ''u'', ''papers'', ''notes.txt''], File ''notes''),
         ([''/'', ''home'', ''u'', ''meta1.json''], File ''A''),
         ([''/'', ''home'', ''u'', ''meta2.json''], File ''B'')],
      stdin = [],
      ticks = 0,
      trace = []\<rparr>"

definition demo_source1 :: source where
  "demo_source1 = \<lparr>src_type = None, src_path = ''meta1.json''\<rparr>"

definition demo_source2 :: source where
  "demo_source2 = \<lparr>src_type = Some ''Bookmarks'', src_path = ''~/meta2.json''\<rparr>"

definition demo_email :: email_cfg where
  "demo_email =
     \<lparr>ec_enabled = True,
      ec_sender = Some ''triage@example.com'',
      ec_recipients = Some [''a@example.com'', ''b@example.com''],
      ec_subject = None,
      ec_password_env = Some ''SMTP_PASS'',
      ec_smtp_host = None,
      ec_smtp_port = None,
      ec_username = Some ''u'',
      ec_use_tls = None\<rparr>"

definition demo_config :: config where
  "demo_config =
     \<lparr>cfg_input_folders = [''papers''],
      cfg_metadata_sources = None,
      cfg_archive_dir = None,
      cfg_log_path = None,
      cfg_digest_dir = None,
      cfg_max_pages = None,
      cfg_max_chars = None,
      cfg_model = None,
      cfg_auto_decision = \<lparr>ac_enabled = True, ac_default = Some ''Remove''\<rparr>,
      cfg_digest_enabled = True,
      cfg_email = demo_email\<rparr>"

definition demo_args :: args where
  "demo_args =
     \<lparr>a_dry_run = False,
      a_max_pages = None,
      a_max_chars = None,
      a_archive = None,
      a_log_path = None,
      a_digest_dir = None,
      a_auto_decision = None\<rparr>"





section \<open>Derived notions\<close>

text \<open>
  Names for what the theorems speak about.  \<open>decisions\<close> are the three values a stored
  decision can take: the source stores the single letters \<open>k\<close>, \<open>r\<close> and \<open>s\<close> for
  keep, remove and skip.  \<open>decide\<close> is the \<open>if auto_decision\<close> statement of
  \<open>triage_papers\<close>, \<open>maybe_archive\<close> the \<open>if decision == "r" and not dry_run\<close>
  statement of \<open>triage_once\<close>, and \<open>make_entry\<close> the dictionary \<open>entry\<close> it builds.
  \<open>entry_key\<close> and \<open>action_key\<close> are what a log entry and an action have in common;
  \<open>files\<close> are the regular files of a filesystem with their contents; \<open>run_papers\<close>
  and \<open>run_summary_fn\<close> are the candidates and the summary function of one run.
\<close>

definition decisions :: "string set" where
  "decisions = {''k'', ''r'', ''s''}"

definition decide ::
  "string option \<Rightarrow> world \<Rightarrow> PaperCandidate \<Rightarrow> string \<Rightarrow> bool \<Rightarrow> (error + string) \<times> world" where
  "decide auto_decision w paper summary dry_run =
     (case auto_decision of
        None \<Rightarrow> prompt_for_decision w paper summary dry_run
      | Some mode \<Rightarrow>
          if mode = [] then prompt_for_decision w paper summary dry_run
          else (auto_decide mode, w))"

definition entry_key :: "log_entry \<Rightarrow> string \<times> string \<times> string \<times> string" where
  "entry_key e = (le_title e, le_path e, le_summary e, le_decision e)"

definition action_key :: "action \<Rightarrow> string \<times> string \<times> string \<times> string" where
  "action_key a = (pc_title (fst a), path_str (pc_path (fst a)), fst (snd a), snd (snd a))"

definition make_entry :: "ext \<Rightarrow> bool \<Rightarrow> world \<Rightarrow> action \<Rightarrow> log_entry" where
  "make_entry x dry_run w a =
     \<lparr>le_timestamp = utcnow_isoformat x (ticks w),
      le_title = pc_title (fst a),
      le_path = path_str (pc_path (fst a)),
      le_summary = fst (snd a),
      le_decision = snd (snd a),
      le_dry_run = (if dry_run then ''True'' else ''False'')\<rparr>"

definition maybe_archive :: "ext \<Rightarrow> bool \<Rightarrow> path \<Rightarrow> action \<Rightarrow> world \<Rightarrow> (error + unit) \<times> world" where
  "maybe_archive x dry_run archive_dir a w =
     (if snd (snd a) = ''r'' \<and> \<not> dry_run then archive_paper x w archive_dir (fst a)
      else (Inr (), w))"

definition files :: "world \<Rightarrow> (path \<times> string) set" where
  "files w = {(k, t). map_of (nodes w) k = Some (File t)}"

definition run_papers :: "ext \<Rightarrow> world \<Rightarrow> config \<Rightarrow> PaperCandidate list" where
  "run_papers x w config =
     discover_papers x w (cfg_input_folders config) (cfg_metadata_sources config)"

definition run_summary_fn :: "ext \<Rightarrow> config \<Rightarrow> args \<Rightarrow> PaperCandidate \<Rightarrow> error + string" where
  "run_summary_fn x config args =
     summarize_factory x (get_default (cfg_model config) ''llama3.2:latest'')
       (int_or (a_max_pages args) (get_default (cfg_max_pages config) 3))
       (int_or (a_max_chars args) (get_default (cfg_max_chars config) 4000))"

text \<open>
  The acceptance the specification words: the configured string, lower-cased, is one of
  the three decisions in single-letter or full-word form.
\<close>

definition spec_accepts :: "string \<Rightarrow> bool" where
  "spec_accepts mode \<longleftrightarrow> lower mode \<in> {''k'', ''r'', ''s'', ''keep'', ''remove'', ''skip''}"

text \<open>
  The text a log file holds before a write (nothing when it is absent) and the header
  row that \<open>append_log_entry\<close> adds for a file that does not exist yet;
  \<open>append_all\<close> is a sequence of calls of \<open>append_log_entry\<close> on one log file.
  \<open>moves\<close> are the calls of \<open>shutil.move\<close> a world has seen; a world is undisturbed
  by a step that moved nothing and left every existing path in place.  \<open>run_log_path\<close>,
  \<open>run_archive_dir\<close> and \<open>run_digest_dir\<close> are the three paths of a run, and
  \<open>run_digest\<close> is the digest step of \<open>triage_once\<close>.
\<close>

definition old_text :: "ext \<Rightarrow> world \<Rightarrow> path \<Rightarrow> string" where
  "old_text x w p = (case lookup_node x w p of Some (File t) \<Rightarrow> t | _ \<Rightarrow> [])"

definition header_if_new :: "ext \<Rightarrow> world \<Rightarrow> path \<Rightarrow> string" where
  "header_if_new x w p = (if path_exists x w p then [] else csv_writerow x LOG_FIELDS)"


fun is_move :: "event \<Rightarrow> bool" where
  "is_move (Moved src dst) = True"
| "is_move e = False"

definition moves :: "world \<Rightarrow> event list" where
  "moves w = filter is_move (trace w)"

definition undisturbed :: "world \<Rightarrow> world \<Rightarrow> bool" where
  "undisturbed w w' \<longleftrightarrow>
     moves w' = moves w \<and> (\<forall>k. map_of (nodes w) k \<noteq> None \<longrightarrow> map_of (nodes w') k \<noteq> None)"

definition run_log_path :: "ext \<Rightarrow> config \<Rightarrow> args \<Rightarrow> path" where
  "run_log_path x config args =
     expanduser x (Path (str_or (a_log_path args)
                           (get_default (cfg_log_path config) ''triage_log.csv'')))"

definition run_archive_dir :: "ext \<Rightarrow> config \<Rightarrow> args \<Rightarrow> path" where
  "run_archive_dir x config args =
     expanduser x (Path (str_or (a_archive args)
                           (get_default (cfg_archive_dir config) ''archive'')))"

definition run_digest_dir :: "ext \<Rightarrow> config \<Rightarrow> args \<Rightarrow> path" where
  "run_digest_dir x config args =
     expanduser x (Path (str_or (a_digest_dir args)
                           (get_default (cfg_digest_dir config) ''digests'')))"

definition run_digest ::
  "ext \<Rightarrow> world \<Rightarrow> config \<Rightarrow> args \<Rightarrow> log_entry list \<Rightarrow> (error + path option) \<times> world"
where
  "run_digest x w config args log_entries =
     (if log_entries \<noteq> [] \<and> cfg_digest_enabled config then
        (case write_digest x w (run_digest_dir x config args) log_entries of
           (Inl e, w') \<Rightarrow> (Inl e, w')
         | (Inr p, w') \<Rightarrow> (Inr (Some p), w'))
      else (Inr None, w))"

text \<open>
  \<open>smtp_calls\<close> are the SMTP sessions a world has seen.  A digest path is readable when
  it is absent or is not a directory (the digest step of a run only hands on the path of
  the file it has just written).  \<open>smtp_outcome\<close> is what the SMTP collaborator answers
  for the session \<open>maybe_send_email\<close> opens, and \<open>send_report\<close> the line it logs after
  the \<open>try\<close> block.
\<close>

fun is_smtp_call :: "event \<Rightarrow> bool" where
  "is_smtp_call (SmtpCall host port message) = True"
| "is_smtp_call e = False"

definition smtp_calls :: "world \<Rightarrow> event list" where
  "smtp_calls w = filter is_smtp_call (trace w)"

definition readable :: "ext \<Rightarrow> world \<Rightarrow> path option \<Rightarrow> bool" where
  "readable x w digest_path \<longleftrightarrow>
     (case digest_path of None \<Rightarrow> True | Some dp \<Rightarrow> lookup_node x w dp \<noteq> Some Dir)"



text \<open>
  \<open>candidate target n\<close> is the n-th name the loop of \<open>_unique_target\<close> tries for a
  target, and \<open>nth_name nm i\<close> the i-th name for a file called \<open>nm\<close>: the name itself,
  then the name with \<open>-1\<close>, \<open>-2\<close>, ... before its extension.  \<open>keys\<close> are the paths of
  a filesystem, \<open>rekey\<close> is what a rename does to one of them, and \<open>arch\<close> are the names
  directly inside a directory.  \<open>archive_all\<close> moves a list of papers into the archive
  one after the other, as the loop of \<open>triage_once\<close> does for the actions decided
  \<open>r\<close>.  The archive is empty when no path lies below it, and paths are independent
  when none of them lies at or below an earlier one.
\<close>

definition candidate :: "path \<Rightarrow> nat \<Rightarrow> path" where
  "candidate target n =
     path_child (path_parent target) (suffixed (path_stem target) (path_suffix target) n)"








section \<open>The metadata lookup\<close>

text \<open>
  A source defines a file key when one of the records it contributes carries that key
  and the key is not empty (records with an empty key are never inserted).
\<close>

definition defines_key :: "ext \<Rightarrow> world \<Rightarrow> source \<Rightarrow> string \<Rightarrow> bool" where
  "defines_key x w s k \<longleftrightarrow> k \<noteq> [] \<and> k \<in> mr_file_key ` set (source_records x w s)"

lemma insert_records_append:
  "insert_records lk (a @ b) = insert_records (insert_records lk a) b"
  by (induction a arbitrary: lk) auto

lemma insert_records_lookup:
  "insert_records lk rs k =
     (if k = [] \<or> filter (\<lambda>r. mr_file_key r = k) rs = [] then lk k
      else Some (last (filter (\<lambda>r. mr_file_key r = k) rs)))"
  by (induction rs arbitrary: lk) auto

lemma build_lookup_from_concat:
  "build_lookup_from x w lk ss = insert_records lk (concat (map (source_records x w) ss))"
  by (induction ss arbitrary: lk) (auto simp: insert_records_append)

text \<open>
  C3.  Overwrite law: when the source \<open>s\<close> defines the key \<open>k\<close> and no source processed
  after \<open>s\<close> defines it, the finished lookup maps \<open>k\<close> to a record of \<open>s\<close>, whole and
  unmerged, whatever the sources before \<open>s\<close> said: the last record of \<open>s\<close> that
  carries the key.
\<close>

theorem build_metadata_lookup_last_wins:
  assumes "sources = pre @ s # post"
    and "defines_key x w s k"
    and "\<forall>t \<in> set post. \<not> defines_key x w t k"
  shows "build_metadata_lookup x w sources k =
           Some (last (filter (\<lambda>r. mr_file_key r = k) (source_records x w s)))"
proof -
  let ?P = "\<lambda>r. mr_file_key r = k"
  have k: "k \<noteq> []" using assms(2) by (simp add: defines_key_def)
  have s: "filter ?P (source_records x w s) \<noteq> []"
    using assms(2) by (auto simp: defines_key_def filter_empty_conv)
  have post: "filter ?P (concat (map (source_records x w) post)) = []"
    using assms(3) k by (auto simp: defines_key_def filter_empty_conv)
  show ?thesis
    unfolding build_metadata_lookup_def build_lookup_from_concat assms(1)
    using k s post by (simp add: insert_records_lookup filter_concat)
qed

theorem build_metadata_lookup_last_wins_witness:
  "defines_key demo_ext demo_world demo_source1 ''paper.pdf'' \<and>
   defines_key demo_ext demo_world demo_source2 ''paper.pdf'' \<and>
   build_metadata_lookup demo_ext demo_world [demo_source1, demo_source2] ''paper.pdf'' =
     Some \<lparr>mr_title = ''Second'', mr_file_key = ''paper.pdf'', mr_authors = None,
           mr_year = None, mr_source = ''/home/u/meta2.json''\<rparr>"
proof -
  have a: "defines_key demo_ext demo_world demo_source1 ''paper.pdf''"
    by code_simp
  have b: "defines_key demo_ext demo_world demo_source2 ''paper.pdf''"
    by code_simp
  have c: "last (filter (\<lambda>r. mr_file_key r = ''paper.pdf'')
                   (source_records demo_ext demo_world demo_source2)) =
             \<lparr>mr_title = ''Second'', mr_file_key = ''paper.pdf'', mr_authors = None,
              mr_year = None, mr_source = ''/home/u/meta2.json''\<rparr>"
    by code_simp
  have "build_metadata_lookup demo_ext demo_world [demo_source1, demo_source2] ''paper.pdf'' =
          Some (last (filter (\<lambda>r. mr_file_key r = ''paper.pdf'')
                        (source_records demo_ext demo_world demo_source2)))"
    using build_metadata_lookup_last_wins
            [of "[demo_source1, demo_source2]" "[demo_source1]" demo_source2 "[]"
                demo_ext demo_world "''paper.pdf''"] b
    by simp
  with a b c show ?thesis by simp
qed

section \<open>Discovery\<close>

text \<open>
  The paths the folders enumerate: for every configured folder, what \<open>rglob\<close> yields
  under it (nothing for a folder that does not exist).
\<close>

definition enumerated :: "ext \<Rightarrow> world \<Rightarrow> string list \<Rightarrow> path set" where
  "enumerated x w folders = (\<Union>f \<in> set folders. set (rglob_pdf x w (expanduser x (Path f))))"

lemma rglob_pdf_missing: "\<not> path_exists x w p \<Longrightarrow> rglob_pdf x w p = []"
  by (simp add: rglob_pdf_def path_exists_def)

lemma scan_pdfs_inv:
  assumes "distinct (map pc_path cs)" "pc_path ` set cs = seen"
  shows "distinct (map pc_path (fst (scan_pdfs lk ps (cs, seen)))) \<and>
         pc_path ` set (fst (scan_pdfs lk ps (cs, seen))) = snd (scan_pdfs lk ps (cs, seen)) \<and>
         snd (scan_pdfs lk ps (cs, seen)) = seen \<union> set ps"
  using assms
proof (induction ps arbitrary: cs seen)
  case Nil
  then show ?case by simp
next
  case (Cons p ps)
  show ?case
  proof (cases "p \<in> seen")
    case True
    with Cons.IH[OF Cons.prems] show ?thesis by (auto simp: Let_def)
  next
    case False
    let ?c = "\<lparr>pc_path = p,
               pc_title = (case lk (lower (path_name p)) of
                             None \<Rightarrow> path_stem p
                           | Some r \<Rightarrow> if mr_title r = [] then path_stem p else mr_title r),
               pc_metadata = lk (lower (path_name p))\<rparr>"
    have d: "distinct (map pc_path (cs @ [?c]))" using Cons.prems False by auto
    have s: "pc_path ` set (cs @ [?c]) = insert p seen" using Cons.prems by auto
    from Cons.IH[OF d s] False show ?thesis by (auto simp: Let_def)
  qed
qed

lemma scan_folders_inv:
  assumes "distinct (map pc_path cs)" "pc_path ` set cs = seen"
  shows "distinct (map pc_path (fst (scan_folders x w lk fs (cs, seen)))) \<and>
         pc_path ` set (fst (scan_folders x w lk fs (cs, seen))) = seen \<union> enumerated x w fs"
  using assms
proof (induction fs arbitrary: cs seen)
  case Nil
  then show ?case by (simp add: enumerated_def)
next
  case (Cons f fs)
  let ?fp = "expanduser x (Path f)"
  show ?case
  proof (cases "path_exists x w ?fp")
    case False
    with Cons.IH[OF Cons.prems] show ?thesis
      by (simp add: enumerated_def rglob_pdf_missing)
  next
    case True
    obtain cs' seen' where r: "scan_pdfs lk (sort (rglob_pdf x w ?fp)) (cs, seen) = (cs', seen')"
      by (cases "scan_pdfs lk (sort (rglob_pdf x w ?fp)) (cs, seen)")
    from scan_pdfs_inv[OF Cons.prems, of lk "sort (rglob_pdf x w ?fp)"] r
    have d: "distinct (map pc_path cs')" and s: "pc_path ` set cs' = seen'"
      and u: "seen' = seen \<union> set (rglob_pdf x w ?fp)" by simp_all
    from Cons.IH[OF d s] True u r show ?thesis
      by (simp add: enumerated_def Un_assoc)
  qed
qed

text \<open>
  C1, as stated, at two spellings of one folder.  With the working directory
  \<open>/home/u\<close>, the folders \<open>papers\<close> and \<open>/home/u/papers\<close> are the same directory;
  every file in it is emitted once under each spelling, so the output holds candidates
  whose resolved paths are equal.
\<close>

theorem discover_papers_resolved_duplicates:
  "\<not> distinct (map (\<lambda>c. resolve demo_ext (pc_path c))
                  (discover_papers demo_ext demo_world [''papers'', ''/home/u/papers''] None))"
  by code_simp

text \<open>
  C1, amended.  The candidates of \<open>discover_papers\<close> have pairwise different path
  values (the folder as configured, after expanding \<open>~\<close>, followed by the relative
  parts; nothing is resolved), and every enumerated path value is the path of a
  candidate: a path already emitted is skipped, and two different paths are both kept
  whatever their file names.
\<close>

theorem discover_papers_distinct_paths:
  "distinct (map pc_path (discover_papers x w folders ms)) \<and>
   set (map pc_path (discover_papers x w folders ms)) = enumerated x w folders"
  using scan_folders_inv[of "[]" "{}" x w _ folders]
  by (simp add: discover_papers_def)

theorem discover_papers_distinct_paths_witness:
  "map pc_path (discover_papers demo_ext demo_world [''papers'', ''papers/sub''] None) =
     [[''papers'', ''a.pdf''], [''papers'', ''sub'', ''a.pdf'']] \<and>
   distinct (map pc_path (discover_papers demo_ext demo_world [''papers'', ''papers/sub''] None)) \<and>
   enumerated demo_ext demo_world [''papers'', ''papers/sub''] =
     {[''papers'', ''a.pdf''], [''papers'', ''sub'', ''a.pdf'']}"
proof -
  have e: "map pc_path (discover_papers demo_ext demo_world [''papers'', ''papers/sub''] None) =
             [[''papers'', ''a.pdf''], [''papers'', ''sub'', ''a.pdf'']]"
    by code_simp
  from discover_papers_distinct_paths[of demo_ext demo_world "[''papers'', ''papers/sub'']" None] e
  show ?thesis by auto
qed

section \<open>Decisions\<close>

lemma auto_decide_Inr:
  "auto_decide mode = Inr d \<longleftrightarrow> mode \<noteq> [] \<and> d = lower [hd mode] \<and> d \<in> decisions"
  by (cases mode) (auto simp: auto_decide_def decisions_def Let_def)

lemma auto_decide_Inl:
  "mode \<noteq> [] \<Longrightarrow> lower [hd mode] \<notin> decisions \<Longrightarrow> auto_decide mode = Inl ValueError"
  by (cases mode) (auto simp: auto_decide_def decisions_def Let_def)

lemma prompt_loop_decision:
  "prompt_loop p inp tr = (Inr d, rest, tr') \<Longrightarrow> d \<in> decisions"
  by (induction inp arbitrary: tr) (auto simp: Let_def decisions_def split: if_splits)

lemma prompt_for_decision_decision:
  "prompt_for_decision w paper summary dry = (Inr d, w') \<Longrightarrow> d \<in> decisions"
  by (auto simp: prompt_for_decision_def split: prod.splits dest: prompt_loop_decision)

lemma decide_decision:
  "decide ad w paper summary dry = (Inr d, w') \<Longrightarrow> d \<in> decisions"
  by (auto simp: decide_def auto_decide_Inr split: option.splits if_splits
           dest: prompt_for_decision_decision)

lemma triage_loop_step:
  "triage_loop sf dry ad (paper # papers) actions w =
     (case sf paper of
        Inl e \<Rightarrow> (Inl e, w)
      | Inr summary \<Rightarrow>
          (case decide ad w paper summary dry of
             (Inl e, w') \<Rightarrow> (Inl e, w')
           | (Inr decision, w') \<Rightarrow>
               triage_loop sf dry ad papers (actions @ [(paper, summary, decision)]) w'))"
  by (simp add: decide_def split: sum.splits)

lemma triage_loop_shape:
  "triage_loop sf dry ad papers actions w = (Inr acts, w') \<Longrightarrow>
     \<exists>new. acts = actions @ new \<and> map fst new = papers \<and>
           (\<forall>a \<in> set new. snd (snd a) \<in> decisions \<and> sf (fst a) = Inr (fst (snd a)))"
proof (induction papers arbitrary: actions w)
  case Nil
  then show ?case by simp
next
  case (Cons paper papers)
  from Cons.prems obtain summary where s: "sf paper = Inr summary"
    by (auto simp: triage_loop_step simp del: triage_loop.simps split: sum.splits)
  from Cons.prems s obtain d w1 where d: "decide ad w paper summary dry = (Inr d, w1)"
    and r: "triage_loop sf dry ad papers (actions @ [(paper, summary, d)]) w1 = (Inr acts, w')"
    by (auto simp: triage_loop_step simp del: triage_loop.simps split: sum.splits prod.splits)
  from Cons.IH[OF r] obtain new where
    n: "acts = (actions @ [(paper, summary, d)]) @ new" "map fst new = papers"
       "\<forall>a \<in> set new. snd (snd a) \<in> decisions \<and> sf (fst a) = Inr (fst (snd a))"
    by blast
  show ?case
    apply (rule exI[of _ "(paper, summary, d) # new"])
    using n s decide_decision[OF d] by simp
qed

lemma triage_loop_rejected:
  assumes "mode \<noteq> []" "auto_decide mode = Inl e0" "papers \<noteq> []"
  shows "\<exists>e. triage_loop sf dry (Some mode) papers actions w = (Inl e, w)"
  using assms by (cases papers) (auto split: sum.splits)


text \<open>
  C7.  Whenever \<open>triage_papers\<close> returns its actions, the decision stored in each of
  them is one of the three values keep, remove and skip (the letters \<open>k\<close>, \<open>r\<close>,
  \<open>s\<close>), whether it came from the prompt or from the automatic mode.
\<close>

theorem triage_papers_decisions:
  assumes "triage_papers papers summary_fn dry_run auto_decision w = (Inr actions, w')"
  shows "\<forall>(paper, summary, decision) \<in> set actions. decision \<in> {''k'', ''r'', ''s''}"
  using triage_loop_shape[OF assms[unfolded triage_papers_def]]
  by (auto simp: decisions_def)

theorem triage_papers_decisions_witness:
  "map (\<lambda>a. snd (snd a))
     (projr (fst (triage_papers (run_papers demo_ext demo_world demo_config)
                    (run_summary_fn demo_ext demo_config demo_args) False None
                    (demo_world\<lparr>stdin := [''o'', ''x'', '' S '', []]\<rparr>)))) = [''s'', ''k''] \<and>
   set (map (\<lambda>a. snd (snd a))
     (projr (fst (triage_papers (run_papers demo_ext demo_world demo_config)
                    (run_summary_fn demo_ext demo_config demo_args) False None
                    (demo_world\<lparr>stdin := [''o'', ''x'', '' S '', []]\<rparr>))))) \<subseteq> {''k'', ''r'', ''s''}"
proof -
  let ?r = "triage_papers (run_papers demo_ext demo_world demo_config)
              (run_summary_fn demo_ext demo_config demo_args) False None
              (demo_world\<lparr>stdin := [''o'', ''x'', '' S '', []]\<rparr>)"
  have v: "map (\<lambda>a. snd (snd a)) (projr (fst ?r)) = [''s'', ''k'']" by code_simp
  have "isl (fst ?r) = False" by code_simp
  then obtain actions w' where r: "?r = (Inr actions, w')"
    by (cases ?r; cases "fst ?r") auto
  from triage_papers_decisions[OF r] have "set (map (\<lambda>a. snd (snd a)) actions) \<subseteq> {''k'', ''r'', ''s''}"
    by auto
  with v r show ?thesis by simp
qed



section \<open>The run\<close>

lemma process_actions_step:
  "process_actions x dry ad lp (a # actions) entries w =
     (case maybe_archive x dry ad a w of
        (Inl e, w1) \<Rightarrow> (Inl e, w1)
      | (Inr u, w1) \<Rightarrow>
          (case append_log_entry x (w1\<lparr>ticks := ticks w1 + 1\<rparr>) lp (make_entry x dry w1 a) of
             (Inl e, w3) \<Rightarrow> (Inl e, w3)
           | (Inr u, w3) \<Rightarrow>
               process_actions x dry ad lp actions (entries @ [make_entry x dry w1 a]) w3))"
proof (cases a)
  case (fields p s d)
  show ?thesis
    unfolding fields maybe_archive_def make_entry_def process_actions.simps Let_def
      fst_conv snd_conv
    by simp
qed

lemma make_entry_key [simp]: "entry_key (make_entry x dry w a) = action_key a"
  by (simp add: entry_key_def make_entry_def action_key_def)

lemma make_entry_dry [simp]:
  "le_dry_run (make_entry x dry w a) = (if dry then ''True'' else ''False'')"
  by (simp add: make_entry_def)

lemma process_actions_shape:
  "process_actions x dry ad lp actions entries w = (Inr es, w') \<Longrightarrow>
     \<exists>new. es = entries @ new \<and> map entry_key new = map action_key actions \<and>
           (\<forall>e \<in> set new. le_dry_run e = (if dry then ''True'' else ''False''))"
proof (induction actions arbitrary: entries w)
  case Nil
  then show ?case by simp
next
  case (Cons a actions)
  from Cons.prems obtain w1 w3 where
    r: "process_actions x dry ad lp actions (entries @ [make_entry x dry w1 a]) w3 = (Inr es, w')"
    by (auto simp: process_actions_step simp del: process_actions.simps
             split: prod.splits sum.splits)
  from Cons.IH[OF r] obtain new where
    n: "es = (entries @ [make_entry x dry w1 a]) @ new" "map entry_key new = map action_key actions"
       "\<forall>e \<in> set new. le_dry_run e = (if dry then ''True'' else ''False'')"
    by blast
  show ?case
    apply (rule exI[of _ "make_entry x dry w1 a # new"])
    using n by simp
qed

lemma triage_once_inversion:
  assumes "triage_once x w config args = (Inr es, w')"
    and "discover_papers x w (cfg_input_folders config) (cfg_metadata_sources config) \<noteq> []"
  shows "\<exists>w1 actions w2 w3.
           triage_papers (discover_papers x w (cfg_input_folders config) (cfg_metadata_sources config))
             (summarize_factory x (get_default (cfg_model config) ''llama3.2:latest'')
                (int_or (a_max_pages args) (get_default (cfg_max_pages config) 3))
                (int_or (a_max_chars args) (get_default (cfg_max_chars config) 4000)))
             (a_dry_run args) (resolve_decision_mode (cfg_auto_decision config) args) w1
             = (Inr actions, w2) \<and>
           trace w1 = trace w \<and>
           process_actions x (a_dry_run args)
             (expanduser x (Path (str_or (a_archive args)
                                    (get_default (cfg_archive_dir config) ''archive''))))
             (expanduser x (Path (str_or (a_log_path args)
                                    (get_default (cfg_log_path config) ''triage_log.csv''))))
             actions [] w2 = (Inr es, w3)"
  using assms unfolding triage_once_def Let_def
  by (fastforce simp: mkdir_parents_def split: if_splits prod.splits sum.splits)


lemma mkdir_prefixes_keeps:
  "mkdir_prefixes ns pre parts = Inr ns' \<Longrightarrow> map_of ns k = Some v \<Longrightarrow> map_of ns' k = Some v"
proof (induction parts arbitrary: ns pre)
  case Nil
  then show ?case by simp
next
  case (Cons part rest)
  show ?case
  proof (cases "map_of ns (pre @ [part])")
    case None
    with Cons.prems have r: "mkdir_prefixes ((pre @ [part], Dir) # ns) (pre @ [part]) rest = Inr ns'"
      by (simp add: Let_def)
    have "map_of ((pre @ [part], Dir) # ns) k = Some v"
      using Cons.prems(2) None by auto
    from Cons.IH[OF r this] show ?thesis .
  next
    case (Some n)
    with Cons.prems show ?thesis
      by (cases n) (auto simp: Let_def intro: Cons.IH)
  qed
qed

lemma mkdir_prefixes_new:
  "mkdir_prefixes ns pre parts = Inr ns' \<Longrightarrow> map_of ns k = None \<Longrightarrow>
     map_of ns' k = None \<or> map_of ns' k = Some Dir"
proof (induction parts arbitrary: ns pre)
  case Nil
  then show ?case by simp
next
  case (Cons part rest)
  show ?case
  proof (cases "map_of ns (pre @ [part])")
    case None
    with Cons.prems have r: "mkdir_prefixes ((pre @ [part], Dir) # ns) (pre @ [part]) rest = Inr ns'"
      by (simp add: Let_def)
    show ?thesis
    proof (cases "k = pre @ [part]")
      case True
      then have "map_of ((pre @ [part], Dir) # ns) k = Some Dir" by simp
      from mkdir_prefixes_keeps[OF r this] show ?thesis by simp
    next
      case False
      then have "map_of ((pre @ [part], Dir) # ns) k = None" using Cons.prems(2) by simp
      from Cons.IH[OF r this] show ?thesis .
    qed
  next
    case (Some n)
    show ?thesis
    proof (cases n)
      case Dir
      with Some Cons.prems have r: "mkdir_prefixes ns (pre @ [part]) rest = Inr ns'"
        by (simp add: Let_def)
      from Cons.IH[OF r Cons.prems(2)] show ?thesis .
    next
      case (File t)
      with Some Cons.prems show ?thesis by (simp add: Let_def)
    qed
  qed
qed

lemma mkdir_prefixes_files:
  assumes "mkdir_prefixes ns pre parts = Inr ns'"
  shows "map_of ns' k = Some (File t) \<longleftrightarrow> map_of ns k = Some (File t)"
proof (cases "map_of ns k")
  case None
  with mkdir_prefixes_new[OF assms None] show ?thesis by auto
next
  case (Some v)
  with mkdir_prefixes_keeps[OF assms Some] show ?thesis by auto
qed

lemma mkdir_parents_frame:
  "mkdir_parents x w p = (r, w') \<Longrightarrow>
     files w' = files w \<and> trace w' = trace w \<and> stdin w' = stdin w \<and> ticks w' = ticks w"
  by (auto simp: mkdir_parents_def files_def mkdir_prefixes_files split: sum.splits)

lemma triage_once_rejected:
  assumes "mode \<noteq> []" "auto_decide mode = Inl e0"
    and "resolve_decision_mode (cfg_auto_decision config) args = Some mode"
    and "run_papers x w config \<noteq> []"
  shows "(\<exists>e. fst (triage_once x w config args) = Inl e) \<and>
         trace (snd (triage_once x w config args)) = trace w \<and>
         files (snd (triage_once x w config args)) = files w"
proof -
  let ?ad = "expanduser x (Path (str_or (a_archive args)
                                    (get_default (cfg_archive_dir config) ''archive'')))"
  let ?m = "if \<not> a_dry_run args then mkdir_parents x w ?ad else (Inr (), w)"
  obtain r w1 where m: "?m = (r, w1)" by (cases ?m)
  have fr: "files w1 = files w \<and> trace w1 = trace w"
    using m mkdir_parents_frame[of x w ?ad r w1] by (auto split: if_splits)
  show ?thesis
  proof (cases r)
    case (Inl e)
    with m assms(4) fr show ?thesis
      by (simp add: triage_once_def run_papers_def Let_def)
  next
    case (Inr u)
    from triage_loop_rejected[OF assms(1,2) assms(4), where sf="run_summary_fn x config args"
           and dry="a_dry_run args" and actions="[]" and w=w1]
    obtain e where "triage_papers (run_papers x w config) (run_summary_fn x config args)
                      (a_dry_run args) (Some mode) w1 = (Inl e, w1)"
      by (auto simp: triage_papers_def)
    with Inr m assms(3,4) fr show ?thesis
      by (simp add: triage_once_def run_papers_def run_summary_fn_def Let_def)
  qed
qed



text \<open>
  C6, as stated, at the configured value \<open>rubbish\<close>: it is none of the six accepted
  spellings, yet \<open>_auto_decide\<close> accepts it, as remove.
\<close>

theorem auto_decide_accepts_other_words:
  "auto_decide ''rubbish'' = Inr ''r'' \<and> \<not> spec_accepts ''rubbish''"
  by code_simp

text \<open>
  C6, amended.  \<open>_auto_decide\<close> accepts a mode exactly when its first character,
  lower-cased, is \<open>k\<close>, \<open>r\<close> or \<open>s\<close>, and the decision is that letter.  A mode in
  effect (not empty) with any other first character raises \<open>ValueError\<close>; in a run
  that discovered at least one paper this ends the run with an exception before any file
  is moved: nothing is added to the trace and the regular files are what they were.
\<close>

theorem auto_decide_first_letter:
  "(auto_decide mode = Inr d \<longleftrightarrow>
      mode \<noteq> [] \<and> d = lower [hd mode] \<and> d \<in> {''k'', ''r'', ''s''}) \<and>
   (mode \<noteq> [] \<and> lower [hd mode] \<notin> {''k'', ''r'', ''s''} \<and>
    resolve_decision_mode (cfg_auto_decision config) args = Some mode \<and>
    run_papers x w config \<noteq> [] \<longrightarrow>
      auto_decide mode = Inl ValueError \<and>
      (\<exists>e. fst (triage_once x w config args) = Inl e) \<and>
      trace (snd (triage_once x w config args)) = trace w \<and>
      files (snd (triage_once x w config args)) = files w)"
proof -
  have a: "auto_decide mode = Inr d \<longleftrightarrow>
             mode \<noteq> [] \<and> d = lower [hd mode] \<and> d \<in> {''k'', ''r'', ''s''}"
    using auto_decide_Inr[of mode d] by (simp add: decisions_def)
  have b: "auto_decide mode = Inl ValueError \<and>
           (\<exists>e. fst (triage_once x w config args) = Inl e) \<and>
           trace (snd (triage_once x w config args)) = trace w \<and>
           files (snd (triage_once x w config args)) = files w"
    if h: "mode \<noteq> []" "lower [hd mode] \<notin> {''k'', ''r'', ''s''}"
          "resolve_decision_mode (cfg_auto_decision config) args = Some mode"
          "run_papers x w config \<noteq> []"
  proof -
    have e: "auto_decide mode = Inl ValueError"
      using auto_decide_Inl[of mode] h(1,2) by (simp add: decisions_def)
    from triage_once_rejected[OF h(1) e h(3) h(4)] e show ?thesis by simp
  qed
  from a b show ?thesis by blast
qed

theorem auto_decide_first_letter_witness:
  "auto_decide ''Remove'' = Inr ''r'' \<and>
   auto_decide ''discard'' = Inl ValueError \<and>
   fst (triage_once demo_ext demo_world
          (demo_config\<lparr>cfg_auto_decision := \<lparr>ac_enabled = True, ac_default = Some ''discard''\<rparr>\<rparr>)
          demo_args) = Inl ValueError \<and>
   trace (snd (triage_once demo_ext demo_world
          (demo_config\<lparr>cfg_auto_decision := \<lparr>ac_enabled = True, ac_default = Some ''discard''\<rparr>\<rparr>)
          demo_args)) = trace demo_world \<and>
   files (snd (triage_once demo_ext demo_world
          (demo_config\<lparr>cfg_auto_decision := \<lparr>ac_enabled = True, ac_default = Some ''discard''\<rparr>\<rparr>)
          demo_args)) = files demo_world"
proof -
  let ?c = "demo_config\<lparr>cfg_auto_decision := \<lparr>ac_enabled = True, ac_default = Some ''discard''\<rparr>\<rparr>"
  have h1: "''discard'' \<noteq> []" by simp
  have h2: "lower [hd ''discard''] \<notin> {''k'', ''r'', ''s''}" by code_simp
  have h3: "resolve_decision_mode (cfg_auto_decision ?c) demo_args = Some ''discard''" by code_simp
  have h4: "run_papers demo_ext demo_world ?c \<noteq> []" by code_simp
  have v: "fst (triage_once demo_ext demo_world ?c demo_args) = Inl ValueError" by code_simp
  have r: "auto_decide ''Remove'' = Inr ''r''" by code_simp
  from auto_decide_first_letter[of "''discard''" "''x''" ?c demo_args demo_ext demo_world]
    h1 h2 h3 h4 v r
  show ?thesis by simp
qed

section \<open>The log file\<close>

lemma mkdir_parents_lookup:
  assumes "mkdir_parents x w q = (Inr u, w1)"
  shows "lookup_node x w p = Some v \<Longrightarrow> lookup_node x w1 p = Some v"
    and "lookup_node x w p = None \<Longrightarrow> lookup_node x w1 p = None \<or> lookup_node x w1 p = Some Dir"
  using assms
  by (auto simp: mkdir_parents_def lookup_node_def split: sum.splits
           dest: mkdir_prefixes_keeps mkdir_prefixes_new)

lemma open_append_lookup:
  assumes "open_append x w p txt = (Inr u, w')"
  shows "lookup_node x w' p = Some (File (old_text x w p @ txt))"
    and "lookup_node x w p \<noteq> Some Dir"
    and "trace w' = trace w" and "ticks w' = ticks w" and "stdin w' = stdin w"
    and "\<And>k. k \<noteq> resolve x p \<Longrightarrow> map_of (nodes w') k = map_of (nodes w) k"
  using assms
  by (auto simp: open_append_def lookup_node_def old_text_def update_conv'
           split: option.splits node.splits)

lemma append_log_entry_lookup:
  assumes "append_log_entry x w p e = (Inr u, w')"
  shows "lookup_node x w' p =
           Some (File (old_text x w p @ header_if_new x w p @ csv_writerow x (entry_row e)))"
proof -
  from assms obtain w1 where
    m: "mkdir_parents x w (path_parent p) = (Inr (), w1)" and
    o: "open_append x w1 p ((if \<not> path_exists x w1 p then csv_writerow x LOG_FIELDS else []) @
                              csv_writerow x (entry_row e)) = (Inr u, w')"
    by (auto simp: append_log_entry_def Let_def split: prod.splits sum.splits)
  note ol = open_append_lookup[OF o]
  show ?thesis
  proof (cases "lookup_node x w p")
    case None
    with mkdir_parents_lookup(2)[OF m None] ol(2) have n1: "lookup_node x w1 p = None" by auto
    with None ol(1) show ?thesis
      by (simp add: old_text_def header_if_new_def path_exists_def)
  next
    case (Some v)
    from mkdir_parents_lookup(1)[OF m Some] have s1: "lookup_node x w1 p = Some v" .
    with ol(2) obtain t where "v = File t" by (cases v) auto
    with Some s1 ol(1) show ?thesis
      by (simp add: old_text_def header_if_new_def path_exists_def)
  qed
qed

lemma append_log_entry_frame:
  assumes "append_log_entry x w p e = (r, w')"
  shows "trace w' = trace w" and "ticks w' = ticks w" and "stdin w' = stdin w"
    and "map_of (nodes w) k \<noteq> None \<Longrightarrow> map_of (nodes w') k \<noteq> None"
proof -
  obtain r1 w1 where m: "mkdir_parents x w (path_parent p) = (r1, w1)"
    by (cases "mkdir_parents x w (path_parent p)")
  note mf = mkdir_parents_frame[OF m]
  have k1: "map_of (nodes w) k \<noteq> None \<Longrightarrow> map_of (nodes w1) k \<noteq> None"
    using m by (auto simp: mkdir_parents_def split: sum.splits dest: mkdir_prefixes_keeps)
  have o: "\<And>txt r2 w2. open_append x w1 p txt = (r2, w2) \<Longrightarrow>
             trace w2 = trace w1 \<and> ticks w2 = ticks w1 \<and> stdin w2 = stdin w1 \<and>
             (map_of (nodes w1) k \<noteq> None \<longrightarrow> map_of (nodes w2) k \<noteq> None)"
    by (auto simp: open_append_def update_conv' split: option.splits node.splits)
  show "trace w' = trace w" "ticks w' = ticks w" "stdin w' = stdin w"
    using assms m mf o
    by (auto simp: append_log_entry_def Let_def split: prod.splits sum.splits)
  show "map_of (nodes w) k \<noteq> None \<Longrightarrow> map_of (nodes w') k \<noteq> None"
    using assms m k1 o
    by (auto simp: append_log_entry_def Let_def split: prod.splits sum.splits)
qed




section \<open>Dry runs\<close>

lemma undisturbed_refl [simp]: "undisturbed w w"
  by (simp add: undisturbed_def)

lemma undisturbed_trans: "undisturbed a b \<Longrightarrow> undisturbed b c \<Longrightarrow> undisturbed a c"
  by (simp add: undisturbed_def)

lemma undisturbed_fields:
  "nodes w' = nodes w \<Longrightarrow> moves w' = moves w \<Longrightarrow> undisturbed w w'"
  by (simp add: undisturbed_def)

lemma prompt_loop_moves:
  "prompt_loop p inp tr = (r, rest, tr') \<Longrightarrow> filter is_move tr' = filter is_move tr"
  by (induction inp arbitrary: tr) (auto simp: Let_def split: if_splits)

lemma decide_frame:
  "decide ad w paper summary dry = (r, w') \<Longrightarrow>
     nodes w' = nodes w \<and> moves w' = moves w \<and> ticks w' = ticks w"
  by (auto simp: decide_def prompt_for_decision_def moves_def
           split: option.splits if_splits prod.splits dest: prompt_loop_moves)

lemma triage_loop_frame:
  "triage_loop sf dry ad papers actions w = (r, w') \<Longrightarrow>
     nodes w' = nodes w \<and> moves w' = moves w \<and> ticks w' = ticks w"
proof (induction papers arbitrary: actions w)
  case Nil
  then show ?case by simp
next
  case (Cons paper papers)
  show ?case
  proof (cases "sf paper")
    case (Inl e)
    with Cons.prems show ?thesis by (simp add: triage_loop_step del: triage_loop.simps)
  next
    case (Inr summary)
    obtain r1 w1 where d: "decide ad w paper summary dry = (r1, w1)"
      by (cases "decide ad w paper summary dry")
    note f = decide_frame[OF d]
    show ?thesis
    proof (cases r1)
      case (Inl e)
      with Cons.prems Inr d f show ?thesis
        by (simp add: triage_loop_step del: triage_loop.simps)
    next
      case (Inr decision)
      with Cons.prems \<open>sf paper = Inr summary\<close> d
      have "triage_loop sf dry ad papers (actions @ [(paper, summary, decision)]) w1 = (r, w')"
        by (simp add: triage_loop_step del: triage_loop.simps)
      from Cons.IH[OF this] f show ?thesis by simp
    qed
  qed
qed

lemma mkdir_parents_undisturbed:
  "mkdir_parents x w p = (r, w') \<Longrightarrow> undisturbed w w'"
  by (auto simp: mkdir_parents_def undisturbed_def moves_def split: sum.splits
           dest: mkdir_prefixes_keeps)

lemma append_log_entry_undisturbed:
  "append_log_entry x w p e = (r, w') \<Longrightarrow> undisturbed w w'"
  using append_log_entry_frame[of x w p e r w']
  by (simp add: undisturbed_def moves_def)

lemma write_text_undisturbed:
  "write_text x w p txt = (r, w') \<Longrightarrow> undisturbed w w'"
  by (auto simp: write_text_def undisturbed_def moves_def update_conv'
           split: option.splits node.splits)

lemma write_digest_undisturbed:
  assumes "write_digest x w d es = (r, w')"
  shows "undisturbed w w'"
proof -
  obtain r1 w1 where m: "mkdir_parents x w d = (r1, w1)" by (cases "mkdir_parents x w d")
  note u1 = mkdir_parents_undisturbed[OF m]
  show ?thesis
  proof (cases r1)
    case (Inl e)
    with assms m u1 show ?thesis by (simp add: write_digest_def)
  next
    case (Inr u)
    let ?w2 = "w1\<lparr>ticks := ticks w1 + 1\<rparr>"
    let ?dp = "path_child d (''digest-'' @ utcnow_compact x (ticks w1) @ ''.md'')"
    obtain r3 w3 where t: "write_text x ?w2 ?dp (join [CHR 0x0A] (digest_lines es)) = (r3, w3)"
      by (cases "write_text x ?w2 ?dp (join [CHR 0x0A] (digest_lines es))")
    have u2: "undisturbed w1 ?w2" by (simp add: undisturbed_def moves_def)
    from write_text_undisturbed[OF t] u1 u2 have "undisturbed w w3"
      by (blast intro: undisturbed_trans)
    with assms m Inr t show ?thesis
      by (auto simp: write_digest_def Let_def split: sum.splits)
  qed
qed

lemma try_send_frame:
  "try_send x w cfg message recipients password = (r, w') \<Longrightarrow>
     nodes w' = nodes w \<and> moves w' = moves w \<and> r = Inr ()"
  by (auto simp: try_send_def send_message_def Let_def moves_def split: option.splits prod.splits)

lemma maybe_send_email_frame:
  "maybe_send_email x w cfg es dp = (r, w') \<Longrightarrow> nodes w' = nodes w \<and> moves w' = moves w"
  by (auto simp: maybe_send_email_def Let_def moves_def
           split: if_splits option.splits sum.splits dest: try_send_frame)

lemma maybe_archive_dry [simp]: "maybe_archive x True ad a w = (Inr (), w)"
  by (simp add: maybe_archive_def)

lemma lookup_node_ticks [simp]: "lookup_node x (w\<lparr>ticks := n\<rparr>) p = lookup_node x w p"
  by (simp add: lookup_node_def)

lemma old_text_ticks [simp]: "old_text x (w\<lparr>ticks := n\<rparr>) p = old_text x w p"
  by (simp add: old_text_def)

lemma header_if_new_ticks [simp]: "header_if_new x (w\<lparr>ticks := n\<rparr>) p = header_if_new x w p"
  by (simp add: header_if_new_def path_exists_def)

lemma process_actions_dry_frame:
  "process_actions x True ad lp actions entries w = (r, w') \<Longrightarrow> undisturbed w w'"
proof (induction actions arbitrary: entries w)
  case Nil
  then show ?case by simp
next
  case (Cons a actions)
  let ?w2 = "w\<lparr>ticks := ticks w + 1\<rparr>"
  obtain r3 w3 where ap: "append_log_entry x ?w2 lp (make_entry x True w a) = (r3, w3)"
    by (cases "append_log_entry x ?w2 lp (make_entry x True w a)")
  have u2: "undisturbed w ?w2" by (simp add: undisturbed_def moves_def)
  from append_log_entry_undisturbed[OF ap] u2 have u3: "undisturbed w w3"
    by (blast intro: undisturbed_trans)
  show ?case
  proof (cases r3)
    case (Inl e)
    with Cons.prems ap u3 show ?thesis
      by (simp add: process_actions_step del: process_actions.simps)
  next
    case (Inr u)
    with Cons.prems ap
    have "process_actions x True ad lp actions (entries @ [make_entry x True w a]) w3 = (r, w')"
      by (simp add: process_actions_step del: process_actions.simps)
    from Cons.IH[OF this] u3 show ?thesis by (blast intro: undisturbed_trans)
  qed
qed

lemma process_actions_dry_text:
  "process_actions x True ad lp actions entries w = (Inr es, w') \<Longrightarrow>
     \<exists>new. es = entries @ new \<and>
       old_text x w' lp =
         old_text x w lp @ (if actions = [] then [] else header_if_new x w lp) @
         concat (map (\<lambda>e. csv_writerow x (entry_row e)) new) \<and>
       (actions \<noteq> [] \<longrightarrow> path_exists x w' lp \<and> lookup_node x w' lp \<noteq> Some Dir)"
proof (induction actions arbitrary: entries w)
  case Nil
  then show ?case by simp
next
  case (Cons a actions)
  let ?w2 = "w\<lparr>ticks := ticks w + 1\<rparr>"
  let ?e = "make_entry x True w a"
  from Cons.prems obtain w3 where
    ap: "append_log_entry x ?w2 lp ?e = (Inr (), w3)" and
    r: "process_actions x True ad lp actions (entries @ [?e]) w3 = (Inr es, w')"
    by (auto simp: process_actions_step simp del: process_actions.simps
             split: prod.splits sum.splits)
  note l = append_log_entry_lookup[OF ap]
  from l have ex: "path_exists x w3 lp" by (simp add: path_exists_def)
  from l have ot: "old_text x w3 lp =
      old_text x w lp @ header_if_new x w lp @ csv_writerow x (entry_row ?e)"
    by (simp add: old_text_def)
  from ex have h: "header_if_new x w3 lp = []" by (simp add: header_if_new_def)
  from Cons.IH[OF r] obtain new where
    n: "es = (entries @ [?e]) @ new"
       "old_text x w' lp =
          old_text x w3 lp @ (if actions = [] then [] else header_if_new x w3 lp) @
          concat (map (\<lambda>e. csv_writerow x (entry_row e)) new)"
       "actions \<noteq> [] \<longrightarrow> path_exists x w' lp \<and> lookup_node x w' lp \<noteq> Some Dir"
    by blast
  have last: "actions = [] \<Longrightarrow> w' = w3" using r by simp
  show ?case
    apply (rule exI[of _ "?e # new"])
    using n ot h ex l last by (cases "actions = []") auto
qed

lemma triage_once_stages:
  "triage_once x w config args =
     (if run_papers x w config = [] then
        (Inr [], w\<lparr>trace := trace w @
           [LogInfo (''No PDFs found in configured folders.'' @
                     (if a_dry_run args then '' (dry-run)'' else []))]\<rparr>)
      else
        (case (if \<not> a_dry_run args then mkdir_parents x w (run_archive_dir x config args)
               else (Inr (), w)) of
           (Inl e, w1) \<Rightarrow> (Inl e, w1)
         | (Inr u, w1) \<Rightarrow>
             (case triage_papers (run_papers x w config) (run_summary_fn x config args)
                     (a_dry_run args) (resolve_decision_mode (cfg_auto_decision config) args) w1 of
                (Inl e, w2) \<Rightarrow> (Inl e, w2)
              | (Inr actions, w2) \<Rightarrow>
                  (case process_actions x (a_dry_run args) (run_archive_dir x config args)
                          (run_log_path x config args) actions [] w2 of
                     (Inl e, w3) \<Rightarrow> (Inl e, w3)
                   | (Inr log_entries, w3) \<Rightarrow>
                       (case run_digest x w3 config args log_entries of
                          (Inl e, w4) \<Rightarrow> (Inl e, w4)
                        | (Inr digest_path, w4) \<Rightarrow>
                            (case maybe_send_email x w4 (cfg_email config) log_entries
                                    digest_path of
                               (Inl e, w5) \<Rightarrow> (Inl e, w5)
                             | (Inr u, w5) \<Rightarrow> (Inr log_entries, w5)))))))"
  unfolding triage_once_def run_papers_def run_summary_fn_def run_archive_dir_def
    run_log_path_def run_digest_dir_def run_digest_def Let_def
  by (rule refl)

lemma run_digest_undisturbed:
  "run_digest x w config args es = (r, w') \<Longrightarrow> undisturbed w w'"
  using write_digest_undisturbed[of x w "run_digest_dir x config args" es]
  by (auto simp: run_digest_def split: if_splits prod.splits sum.splits)

lemma triage_once_dry_frame:
  assumes "a_dry_run args" and "triage_once x w config args = (r, w')"
  shows "undisturbed w w'"
proof (cases "run_papers x w config = []")
  case True
  with assms(2) show ?thesis
    by (auto simp: triage_once_stages undisturbed_def moves_def)
next
  case False
  let ?dm = "resolve_decision_mode (cfg_auto_decision config) args"
  obtain r2 w2 where t: "triage_papers (run_papers x w config) (run_summary_fn x config args)
                           True ?dm w = (r2, w2)"
    by (cases "triage_papers (run_papers x w config) (run_summary_fn x config args) True ?dm w")
  from triage_loop_frame[OF t[unfolded triage_papers_def]]
  have u2: "undisturbed w w2" by (simp add: undisturbed_fields)
  show ?thesis
  proof (cases r2)
    case (Inl e)
    with assms False t u2 show ?thesis
      by (simp add: triage_once_stages)
  next
    case (Inr actions)
    note r2 = this
    obtain r3 w3 where p: "process_actions x True (run_archive_dir x config args)
                              (run_log_path x config args) actions [] w2 = (r3, w3)"
      by (cases "process_actions x True (run_archive_dir x config args)
                   (run_log_path x config args) actions [] w2")
    from process_actions_dry_frame[OF p] u2 have u3: "undisturbed w w3"
      by (blast intro: undisturbed_trans)
    show ?thesis
    proof (cases r3)
      case (Inl e)
      with assms False t r2 p u3 show ?thesis
        by (simp add: triage_once_stages)
    next
      case (Inr es)
      note r3 = this
      obtain r4 w4 where g: "run_digest x w3 config args es = (r4, w4)"
        by (cases "run_digest x w3 config args es")
      from run_digest_undisturbed[OF g] u3 have u4: "undisturbed w w4"
        by (blast intro: undisturbed_trans)
      show ?thesis
      proof (cases r4)
        case (Inl e)
        with assms False t r2 p r3 g u4 show ?thesis
          by (simp add: triage_once_stages)
      next
        case (Inr dp)
        obtain r5 w5 where m: "maybe_send_email x w4 (cfg_email config) es dp = (r5, w5)"
          by (cases "maybe_send_email x w4 (cfg_email config) es dp")
        from maybe_send_email_frame[OF m] have "undisturbed w4 w5"
          by (simp add: undisturbed_fields)
        with u4 have u5: "undisturbed w w5" by (blast intro: undisturbed_trans)
        from assms False t r2 p r3 g Inr m u5 show ?thesis
          by (cases r5) (simp_all add: triage_once_stages)
      qed
    qed
  qed
qed

lemma triage_once_entries:
  assumes "triage_once x w config args = (Inr es, w')"
  shows "length es = length (run_papers x w config) \<and>
         (\<forall>e \<in> set es. le_dry_run e = (if a_dry_run args then ''True'' else ''False''))"
proof (cases "run_papers x w config = []")
  case True
  with assms show ?thesis by (auto simp: triage_once_stages)
next
  case False
  from triage_once_inversion[OF assms False[unfolded run_papers_def]]
  obtain w1 actions w2 w3 where
    t: "triage_papers (run_papers x w config) (run_summary_fn x config args) (a_dry_run args)
          (resolve_decision_mode (cfg_auto_decision config) args) w1 = (Inr actions, w2)" and
    p: "process_actions x (a_dry_run args) (run_archive_dir x config args)
          (run_log_path x config args) actions [] w2 = (Inr es, w3)"
    unfolding run_papers_def run_summary_fn_def run_archive_dir_def run_log_path_def by blast
  from triage_loop_shape[OF t[unfolded triage_papers_def]]
  have "map fst actions = run_papers x w config" by auto
  then have l1: "length actions = length (run_papers x w config)" by (metis length_map)
  from process_actions_shape[OF p]
  have k: "map entry_key es = map action_key actions"
    and d: "\<forall>e \<in> set es. le_dry_run e = (if a_dry_run args then ''True'' else ''False'')"
    by auto
  from k have "length es = length actions" by (metis length_map)
  with l1 d show ?thesis by simp
qed

text \<open>
  C5.  In a run with the dry-run flag set, whatever its outcome, no call of
  \<open>shutil.move\<close> is made and every path that existed still exists; the archive branch
  of the loop is not taken for any action.  When the run returns, it returns one log
  entry per candidate and each entry's \<open>dry_run\<close> field is \<open>True\<close>; and the loop of
  a dry run appends to the log file one row per action (after the header, when the file
  is new).
\<close>

theorem dry_run_no_moves:
  assumes "a_dry_run args" and "triage_once x w config args = (r, w')"
  shows "moves w' = moves w \<and>
         (\<forall>k. map_of (nodes w) k \<noteq> None \<longrightarrow> map_of (nodes w') k \<noteq> None) \<and>
         (\<forall>a ad w0. maybe_archive x True ad a w0 = (Inr (), w0)) \<and>
         (\<forall>entries. r = Inr entries \<longrightarrow>
            length entries = length (run_papers x w config) \<and>
            (\<forall>e \<in> set entries. le_dry_run e = ''True'')) \<and>
         (\<forall>ad lp actions w2 entries w3.
            process_actions x True ad lp actions [] w2 = (Inr entries, w3) \<and> actions \<noteq> [] \<longrightarrow>
              length entries = length actions \<and>
              read_text x w3 lp =
                Inr (old_text x w2 lp @ header_if_new x w2 lp @
                     concat (map (\<lambda>e. csv_writerow x (entry_row e)) entries)))"
proof -
  from triage_once_dry_frame[OF assms]
  have a: "moves w' = moves w"
    and b: "\<forall>k. map_of (nodes w) k \<noteq> None \<longrightarrow> map_of (nodes w') k \<noteq> None"
    by (simp_all add: undisturbed_def)
  have c: "\<forall>a ad w0. maybe_archive x True ad a w0 = (Inr (), w0)" by simp
  have d: "\<forall>entries. r = Inr entries \<longrightarrow>
            length entries = length (run_papers x w config) \<and>
            (\<forall>e \<in> set entries. le_dry_run e = ''True'')"
    using triage_once_entries[of x w config args _ w'] assms by auto
  have e: "length entries = length actions \<and>
           read_text x w3 lp =
             Inr (old_text x w2 lp @ header_if_new x w2 lp @
                  concat (map (\<lambda>e. csv_writerow x (entry_row e)) entries))"
    if h: "process_actions x True ad lp actions [] w2 = (Inr entries, w3)" "actions \<noteq> []"
    for ad lp actions w2 entries w3
  proof -
    from process_actions_shape[OF h(1)] have "map entry_key entries = map action_key actions"
      by auto
    then have l: "length entries = length actions" by (metis length_map)
    from process_actions_dry_text[OF h(1)] h(2)
    have t: "old_text x w3 lp = old_text x w2 lp @ header_if_new x w2 lp @
               concat (map (\<lambda>e. csv_writerow x (entry_row e)) entries)"
      and ex: "path_exists x w3 lp" and nd: "lookup_node x w3 lp \<noteq> Some Dir"
      by auto
    from ex nd obtain t' where "lookup_node x w3 lp = Some (File t')"
      by (cases "lookup_node x w3 lp") (auto simp: path_exists_def intro: node.exhaust)
    with t l show ?thesis by (simp add: read_text_def old_text_def)
  qed
  from a b c d e show ?thesis by blast
qed

theorem dry_run_no_moves_witness:
  "moves (snd (triage_once demo_ext demo_world demo_config (demo_args\<lparr>a_dry_run := True\<rparr>))) =
     moves demo_world \<and>
   map le_decision (projr (fst (triage_once demo_ext demo_world demo_config
                                  (demo_args\<lparr>a_dry_run := True\<rparr>)))) = [''r'', ''r''] \<and>
   map le_dry_run (projr (fst (triage_once demo_ext demo_world demo_config
                                  (demo_args\<lparr>a_dry_run := True\<rparr>)))) = [''True'', ''True''] \<and>
   path_exists demo_ext (snd (triage_once demo_ext demo_world demo_config
                                  (demo_args\<lparr>a_dry_run := True\<rparr>))) [''papers'', ''a.pdf'']"
proof -
  let ?a = "demo_args\<lparr>a_dry_run := True\<rparr>"
  let ?r = "triage_once demo_ext demo_world demo_config ?a"
  have d: "a_dry_run ?a" by simp
  have p: "?r = (fst ?r, snd ?r)" by simp
  have v1: "map le_decision (projr (fst ?r)) = [''r'', ''r'']" by code_simp
  have v2: "map le_dry_run (projr (fst ?r)) = [''True'', ''True'']" by code_simp
  have v3: "path_exists demo_ext (snd ?r) [''papers'', ''a.pdf'']" by code_simp
  from dry_run_no_moves[OF d p] have "moves (snd ?r) = moves demo_world" by blast
  with v1 v2 v3 show ?thesis by simp
qed

section \<open>Email\<close>



lemma smtp_calls_append_log [simp]:
  "smtp_calls (w\<lparr>trace := trace w @ [LogError m]\<rparr>) = smtp_calls w"
  "smtp_calls (w\<lparr>trace := trace w @ [LogInfo m]\<rparr>) = smtp_calls w"
  by (simp_all add: smtp_calls_def)

lemma write_text_lookup:
  "write_text x w p txt = (Inr u, w') \<Longrightarrow> lookup_node x w' p = Some (File txt)"
  by (auto simp: write_text_def lookup_node_def update_conv' split: option.splits node.splits)

lemma run_digest_readable:
  "run_digest x w config args es = (Inr dp, w') \<Longrightarrow> readable x w' dp"
  by (auto simp: run_digest_def write_digest_def readable_def Let_def
           split: if_splits prod.splits sum.splits dest!: write_text_lookup)



section \<open>Archival\<close>


























end
